theory Spec2Isabelle
  imports Main "HOL-Library.DAList"
begin

section \<open>Values exchanged with the relay\<close>

text \<open>
  A participant identifier arrives from the relay as a JavaScript value: a string in the
  normal case, but the handlers test \<^verbatim>\<open>remoteId != null\<close>, which is false for both
  \<^verbatim>\<open>null\<close> and \<^verbatim>\<open>undefined\<close>. A JavaScript \<^verbatim>\<open>Map\<close> treats the two as different keys.
\<close>

datatype ident = Null | Undefined | Id string

fun nullish :: "ident \<Rightarrow> bool" where
  "nullish (Id x) = False"
| "nullish Null = True"
| "nullish Undefined = True"

type_synonym RTCSessionDescription = string
type_synonym RTCIceCandidateInit = string

record Addressed =
  senderId :: ident
  receiverId :: ident

record Offer = Addressed +
  sdp :: "RTCSessionDescription option"

type_synonym Answer = Offer

record Candidate = Addressed +
  candidate :: "RTCIceCandidateInit option"

text \<open>The messages the page sends with \<^verbatim>\<open>ioConnection.emit\<close>.\<close>

datatype emission =
    CreateRoom int
  | JoinRoom int
  | TransferOffer Offer
  | TransferAnswer Answer
  | TransferCandidate Candidate
  | RemoveConnection ident

record Socket =
  socketId :: ident
  emitted :: "emission list"
  socketClosed :: bool

datatype exn =
    TypeError
  | DOMException
  | RTCNotSupportedError
  | RTCNoAvailableCameraError
  | RTCNoAvailableMicrophoneError

section \<open>JavaScript maps\<close>

text \<open>
  A \<^verbatim>\<open>Map\<close> holds each key once and iterates in insertion order; \<^verbatim>\<open>set\<close> on a key that
  is present replaces the value in place, on a new key it appends the entry.
\<close>

definition Map_get :: "('k, 'v) alist \<Rightarrow> 'k \<Rightarrow> 'v option" where
  "Map_get m k = DAList.lookup m k"

definition Map_set :: "'k \<Rightarrow> 'v \<Rightarrow> ('k, 'v) alist \<Rightarrow> ('k, 'v) alist" where
  "Map_set k v m = DAList.update k v m"

definition Map_delete :: "'k \<Rightarrow> ('k, 'v) alist \<Rightarrow> ('k, 'v) alist" where
  "Map_delete k m = DAList.delete k m"

definition Map_keys :: "('k, 'v) alist \<Rightarrow> 'k list" where
  "Map_keys m = map fst (DAList.impl_of m)"

definition Map_values :: "('k, 'v) alist \<Rightarrow> 'v list" where
  "Map_values m = map snd (DAList.impl_of m)"

definition Map_size :: "('k, 'v) alist \<Rightarrow> nat" where
  "Map_size m = length (DAList.impl_of m)"

definition Map_new :: "('k, 'v) alist" where
  "Map_new = DAList.empty"

section \<open>Media tracks and streams\<close>

text \<open>
  Tracks are objects: stopping one is seen through every stream that holds it. The page
  keeps them in a store, and a \<^verbatim>\<open>MediaStream\<close> is the list of the tracks it holds.
\<close>

record MediaStreamTrack =
  enabled :: bool
  ended :: bool

definition stop :: "MediaStreamTrack \<Rightarrow> MediaStreamTrack" where
  "stop t = t\<lparr>ended := True\<rparr>"

type_synonym MediaStream = "nat list"

definition MediaStream_addTrack :: "nat \<Rightarrow> MediaStream \<Rightarrow> MediaStream" where
  "MediaStream_addTrack t m = (if t \<in> set m then m else m @ [t])"

section \<open>Peer connections\<close>

text \<open>
  \<^verbatim>\<open>RTCPeerConnection\<close> belongs to the browser. The model keeps of a connection what the
  page can observe or cause: whether \<^verbatim>\<open>close\<close> was called, the calls made on it in order,
  its \<^verbatim>\<open>localDescription\<close>, and the handlers assigned to it. The two handlers that do
  more than log are closures over \<^verbatim>\<open>remoteId\<close>; each is stored as the identifier it
  captured.
\<close>

datatype call =
    AddTrack nat
  | CreateOffer
  | CreateAnswer
  | SetLocalDescription RTCSessionDescription
  | SetRemoteDescription "RTCSessionDescription option"
  | AddIceCandidate "RTCIceCandidateInit option"

record RTCPeerConnection =
  isClosed :: bool
  calls :: "call list"
  localDescription :: "RTCSessionDescription option"
  onicecandidate :: "ident option"
  ontrack :: "ident option"
  onconnectionstatechange :: bool
  onnegotiationneeded :: bool
  oniceconnectionstatechange :: bool

definition RTCPeerConnection_new :: RTCPeerConnection where
  "RTCPeerConnection_new =
     \<lparr>isClosed = False, calls = [], localDescription = None, onicecandidate = None,
      ontrack = None, onconnectionstatechange = False, onnegotiationneeded = False,
      oniceconnectionstatechange = False\<rparr>"

definition close :: "RTCPeerConnection \<Rightarrow> RTCPeerConnection" where
  "close pc = pc\<lparr>isClosed := True\<rparr>"

text \<open>
  What the browser answers to a call is a parameter of the model: whether it refuses the
  call (throws, or rejects the promise) on a connection in a given state, and which
  descriptions \<^verbatim>\<open>createOffer\<close> and \<^verbatim>\<open>createAnswer\<close> resolve to.
\<close>

record Platform =
  rejects :: "RTCPeerConnection \<Rightarrow> call \<Rightarrow> bool"
  offerFor :: "RTCPeerConnection \<Rightarrow> RTCSessionDescription"
  answerFor :: "RTCPeerConnection \<Rightarrow> RTCSessionDescription"

fun perform :: "call \<Rightarrow> RTCPeerConnection \<Rightarrow> RTCPeerConnection" where
  "perform (SetLocalDescription d) pc =
     pc\<lparr>calls := calls pc @ [SetLocalDescription d], localDescription := Some d\<rparr>"
| "perform c pc = pc\<lparr>calls := calls pc @ [c]\<rparr>"

section \<open>The page\<close>

text \<open>
  The fields of \<^verbatim>\<open>HomePage\<close>, the \<^verbatim>\<open>srcObject\<close> of its local video element, and the two
  object stores: peer connections by reference (\<open>allocated\<close> counts the connections
  constructed so far, and is the next reference), and tracks by reference.
\<close>

record HomePage =
  ioConnection :: "Socket option"
  peerConnectionMap :: "(ident, nat) alist"
  localUserStreamData :: "MediaStream option"
  targetUserStreamDataMap :: "(ident, MediaStream) alist"
  srcObject :: "MediaStream option"
  connections :: "nat \<Rightarrow> RTCPeerConnection"
  allocated :: nat
  tracks :: "nat \<Rightarrow> MediaStreamTrack"

text \<open>
  \<^verbatim>\<open>getOrCreatePeerConnection\<close>: the lookup is made only for an identifier that is not
  null; in every other case a connection is constructed, its handlers are assigned, and it
  is stored under \<^verbatim>\<open>remoteId\<close>.
\<close>

definition getOrCreatePeerConnection :: "ident \<Rightarrow> HomePage \<Rightarrow> nat \<times> HomePage" where
  "getOrCreatePeerConnection remoteId s =
     (case (if \<not> nullish remoteId then Map_get (peerConnectionMap s) remoteId else None) of
        Some peerConnection \<Rightarrow> (peerConnection, s)
      | None \<Rightarrow>
          (let newPeerConnection = RTCPeerConnection_new
                 \<lparr>onicecandidate := Some remoteId,
                  ontrack := Some remoteId,
                  onconnectionstatechange := True,
                  onnegotiationneeded := True,
                  oniceconnectionstatechange := True\<rparr>;
               ref = allocated s
           in (ref,
               s\<lparr>connections := (connections s)(ref := newPeerConnection),
                 allocated := Suc ref,
                 peerConnectionMap := Map_set remoteId ref (peerConnectionMap s)\<rparr>)))"

text \<open>
  A handler returns the exception it ends with, if any, and the page as it has left it:
  what a handler did before it threw stays done.
\<close>

definition andThen ::
  "exn option \<times> HomePage \<Rightarrow> (HomePage \<Rightarrow> exn option \<times> HomePage) \<Rightarrow> exn option \<times> HomePage" where
  "andThen r k = (case r of (Some e, s) \<Rightarrow> (Some e, s) | (None, s) \<Rightarrow> k s)"

text \<open>\<^verbatim>\<open>this.ioConnection.emit(...)\<close>: a \<^verbatim>\<open>TypeError\<close> when there is no socket.\<close>

definition emit :: "(Socket \<Rightarrow> emission) \<Rightarrow> HomePage \<Rightarrow> exn option \<times> HomePage" where
  "emit msg s =
     (case ioConnection s of
        None \<Rightarrow> (Some TypeError, s)
      | Some io \<Rightarrow> (None, s\<lparr>ioConnection := Some (io\<lparr>emitted := emitted io @ [msg io]\<rparr>)\<rparr>))"

text \<open>A call on the connection behind a reference: refused by the browser, or recorded.\<close>

definition invoke :: "Platform \<Rightarrow> nat \<Rightarrow> call \<Rightarrow> HomePage \<Rightarrow> exn option \<times> HomePage" where
  "invoke P ref c s =
     (if rejects P (connections s ref) c then (Some DOMException, s)
      else (None, s\<lparr>connections := (connections s)(ref := perform c (connections s ref))\<rparr>))"

definition closeRef :: "nat \<Rightarrow> HomePage \<Rightarrow> HomePage" where
  "closeRef ref s = s\<lparr>connections := (connections s)(ref := close (connections s ref))\<rparr>"

definition stopRef :: "nat \<Rightarrow> HomePage \<Rightarrow> HomePage" where
  "stopRef t s = s\<lparr>tracks := (tracks s)(t := stop (tracks s t))\<rparr>"

text \<open>\<^verbatim>\<open>stream.getTracks().forEach(value => value.stop())\<close>\<close>

definition stopTracks :: "MediaStream \<Rightarrow> HomePage \<Rightarrow> HomePage" where
  "stopTracks stream s = fold stopRef stream s"

text \<open>
  \<^verbatim>\<open>srcObject.getTracks().forEach(value1 => peerConnection.addTrack(value1))\<close>, run only
  when the local video element has a stream.
\<close>

fun addTracks :: "Platform \<Rightarrow> nat \<Rightarrow> nat list \<Rightarrow> HomePage \<Rightarrow> exn option \<times> HomePage" where
  "addTracks P peerConnection [] s = (None, s)"
| "addTracks P peerConnection (value1 # rest) s =
     andThen (invoke P peerConnection (AddTrack value1) s) (addTracks P peerConnection rest)"

definition attachLocalTracks :: "Platform \<Rightarrow> nat \<Rightarrow> HomePage \<Rightarrow> exn option \<times> HomePage" where
  "attachLocalTracks P peerConnection s =
     (case srcObject s of
        Some stream \<Rightarrow> addTracks P peerConnection stream s
      | None \<Rightarrow> (None, s))"

text \<open>The two closures \<^verbatim>\<open>getOrCreatePeerConnection\<close> assigns, with the identifier they captured.\<close>

definition onicecandidate_handler ::
  "ident \<Rightarrow> RTCIceCandidateInit option \<Rightarrow> HomePage \<Rightarrow> exn option \<times> HomePage" where
  "onicecandidate_handler remoteId event_candidate s =
     (case event_candidate of
        Some c \<Rightarrow>
          emit (\<lambda>io. TransferCandidate
                  \<lparr>senderId = socketId io, receiverId = remoteId, candidate = Some c\<rparr>) s
      | None \<Rightarrow> (None, s))"

definition ontrack_handler :: "ident \<Rightarrow> nat \<Rightarrow> HomePage \<Rightarrow> HomePage" where
  "ontrack_handler remoteId event_track s =
     (let item = (case Map_get (targetUserStreamDataMap s) remoteId of
                    Some stream \<Rightarrow> stream
                  | None \<Rightarrow> [])
      in s\<lparr>targetUserStreamDataMap :=
             Map_set remoteId (MediaStream_addTrack event_track item) (targetUserStreamDataMap s)\<rparr>)"

definition removePeerConnection :: "ident \<Rightarrow> HomePage \<Rightarrow> HomePage" where
  "removePeerConnection remoteId s =
     (if nullish remoteId then s
      else
        (let s1 = (case Map_get (peerConnectionMap s) remoteId of
                     Some peerConnection \<Rightarrow> closeRef peerConnection s
                   | None \<Rightarrow> s)
         in s1\<lparr>peerConnectionMap := Map_delete remoteId (peerConnectionMap s1)\<rparr>))"

definition removeStream :: "ident \<Rightarrow> HomePage \<Rightarrow> HomePage" where
  "removeStream remoteId s =
     (if nullish remoteId then s
      else
        (let s1 = (case Map_get (targetUserStreamDataMap s) remoteId of
                     Some streamData \<Rightarrow> stopTracks streamData s
                   | None \<Rightarrow> s)
         in s1\<lparr>targetUserStreamDataMap := Map_delete remoteId (targetUserStreamDataMap s1)\<rparr>))"

text \<open>
  \<^verbatim>\<open>removeAllPeerConnection\<close> copies the values of the map into an array and pops it
  until it is empty, closing each connection; the map itself is not touched.
\<close>

function removeAllPeerConnection_loop :: "nat list \<Rightarrow> HomePage \<Rightarrow> HomePage" where
  "removeAllPeerConnection_loop data s =
     (if length data > 0 then removeAllPeerConnection_loop (butlast data) (closeRef (last data) s)
      else s)"
  by pat_completeness auto
termination
  by (relation "measure (\<lambda>(data, s). length data)") auto

declare removeAllPeerConnection_loop.simps [simp del]

definition removeAllPeerConnection :: "HomePage \<Rightarrow> HomePage" where
  "removeAllPeerConnection s = removeAllPeerConnection_loop (Map_values (peerConnectionMap s)) s"

fun emitEach :: "(ident \<Rightarrow> emission) \<Rightarrow> ident list \<Rightarrow> HomePage \<Rightarrow> HomePage" where
  "emitEach msg [] s = s"
| "emitEach msg (value # rest) s = emitEach msg rest (snd (emit (\<lambda>io. msg value) s))"

definition removeAllCurrentConnection :: "HomePage \<Rightarrow> HomePage" where
  "removeAllCurrentConnection s =
     (if ioConnection s = None then s
      else emitEach RemoveConnection (Map_keys (peerConnectionMap s)) s)"

text \<open>
  \<^verbatim>\<open>sendOffers\<close> runs an \<^verbatim>\<open>async\<close> callback for each identifier. \<^verbatim>\<open>forEach\<close> does not wait:
  each callback runs up to its first \<^verbatim>\<open>await\<close>, that is through \<^verbatim>\<open>getOrCreatePeerConnection\<close>,
  the \<^verbatim>\<open>addTrack\<close> calls and the call of \<^verbatim>\<open>createOffer\<close>, before the next callback starts.
  \<open>sendOffers_begin\<close> is that part; it yields the connection and the offer the rest of the
  callback goes on with, or nothing when a call was refused (the callback's promise is
  rejected, and nobody looks at it). \<open>sendOffers_resume\<close> is the rest of the callback:
  \<^verbatim>\<open>setLocalDescription\<close>, then the \<^verbatim>\<open>transfer-offer\<close>. The model resumes the callbacks in the
  order they were started, each one to its end.
\<close>

definition sendOffers_begin ::
  "Platform \<Rightarrow> ident \<Rightarrow> HomePage \<Rightarrow> (nat \<times> RTCSessionDescription) option \<times> HomePage" where
  "sendOffers_begin P value s =
     (case getOrCreatePeerConnection value s of
        (peerConnection, s1) \<Rightarrow>
          (case attachLocalTracks P peerConnection s1 of
             (Some e, s2) \<Rightarrow> (None, s2)
           | (None, s2) \<Rightarrow>
               (case invoke P peerConnection CreateOffer s2 of
                  (Some e, s3) \<Rightarrow> (None, s3)
                | (None, s3) \<Rightarrow>
                    (Some (peerConnection, offerFor P (connections s2 peerConnection)), s3))))"

definition sendOffers_resume ::
  "Platform \<Rightarrow> ident \<Rightarrow> nat \<Rightarrow> RTCSessionDescription \<Rightarrow> HomePage \<Rightarrow> HomePage" where
  "sendOffers_resume P value peerConnection offer s =
     snd (andThen (invoke P peerConnection (SetLocalDescription offer) s)
            (\<lambda>s1. emit (\<lambda>io. TransferOffer
                      \<lparr>senderId = socketId io, receiverId = value,
                       sdp = localDescription (connections s1 peerConnection)\<rparr>) s1))"

fun sendOffers_start ::
  "Platform \<Rightarrow> ident list \<Rightarrow> HomePage \<Rightarrow>
     (ident \<times> nat \<times> RTCSessionDescription) list \<times> HomePage" where
  "sendOffers_start P [] s = ([], s)"
| "sendOffers_start P (value # rest) s =
     (case sendOffers_begin P value s of
        (None, s1) \<Rightarrow> sendOffers_start P rest s1
      | (Some (peerConnection, offer), s1) \<Rightarrow>
          (case sendOffers_start P rest s1 of
             (pending, s2) \<Rightarrow> ((value, peerConnection, offer) # pending, s2)))"

fun sendOffers_finish ::
  "Platform \<Rightarrow> (ident \<times> nat \<times> RTCSessionDescription) list \<Rightarrow> HomePage \<Rightarrow> HomePage" where
  "sendOffers_finish P [] s = s"
| "sendOffers_finish P ((value, peerConnection, offer) # pending) s =
     sendOffers_finish P pending (sendOffers_resume P value peerConnection offer s)"

definition sendOffers :: "Platform \<Rightarrow> ident list \<Rightarrow> HomePage \<Rightarrow> HomePage" where
  "sendOffers P userIds s =
     (if ioConnection s = None then s
      else (case sendOffers_start P userIds s of
              (pending, s1) \<Rightarrow> sendOffers_finish P pending s1))"

text \<open>
  \<^verbatim>\<open>getUserStreamData\<close>; \<open>media\<close> is what \<^verbatim>\<open>getUserMedia\<close> resolves to, \<open>None\<close> when it
  rejects.
\<close>

definition getUserStreamData ::
  "Platform \<Rightarrow> MediaStream option \<Rightarrow> HomePage \<Rightarrow> exn option \<times> HomePage" where
  "getUserStreamData P media s =
     (case media of
        None \<Rightarrow> (Some DOMException, s)
      | Some stream \<Rightarrow>
          (let s1 = s\<lparr>localUserStreamData := Some stream, srcObject := Some stream\<rparr>
           in if Map_size (peerConnectionMap s1) > 0
              then (let userIds = Map_keys (peerConnectionMap s1)
                    in (None, sendOffers P userIds (removeAllCurrentConnection s1)))
              else (None, s1)))"

section \<open>The handlers registered in ngOnInit\<close>

definition on_join :: "Platform \<Rightarrow> ident list option \<Rightarrow> HomePage \<Rightarrow> exn option \<times> HomePage" where
  "on_join P userIds s =
     (case userIds of
        None \<Rightarrow> emit (\<lambda>io. CreateRoom 1) s
      | Some ids \<Rightarrow> (None, sendOffers P ids s))"

definition on_received_offer :: "Platform \<Rightarrow> Offer \<Rightarrow> HomePage \<Rightarrow> exn option \<times> HomePage" where
  "on_received_offer P offer s =
     (case getOrCreatePeerConnection (senderId offer) s of
        (peerConnection, s1) \<Rightarrow>
          andThen (attachLocalTracks P peerConnection s1) (\<lambda>s2.
          andThen (invoke P peerConnection (SetRemoteDescription (sdp offer)) s2) (\<lambda>s3.
          andThen (invoke P peerConnection CreateAnswer s3) (\<lambda>s4.
          andThen (invoke P peerConnection
                     (SetLocalDescription (answerFor P (connections s3 peerConnection))) s4) (\<lambda>s5.
          emit (\<lambda>io. TransferAnswer
                  \<lparr>senderId = socketId io, receiverId = senderId offer,
                   sdp = localDescription (connections s5 peerConnection)\<rparr>) s5)))))"

definition on_received_answer :: "Platform \<Rightarrow> Answer \<Rightarrow> HomePage \<Rightarrow> exn option \<times> HomePage" where
  "on_received_answer P answer s =
     (case getOrCreatePeerConnection (senderId answer) s of
        (peerConnection, s1) \<Rightarrow> invoke P peerConnection (SetRemoteDescription (sdp answer)) s1)"

definition on_received_candidate ::
  "Platform \<Rightarrow> Candidate \<Rightarrow> HomePage \<Rightarrow> exn option \<times> HomePage" where
  "on_received_candidate P c s =
     (case getOrCreatePeerConnection (senderId c) s of
        (peerConnection, s1) \<Rightarrow> invoke P peerConnection (AddIceCandidate (candidate c)) s1)"

definition on_user_disconnect :: "ident \<Rightarrow> HomePage \<Rightarrow> exn option \<times> HomePage" where
  "on_user_disconnect userId s = (None, removeStream userId (removePeerConnection userId s))"

definition on_disconnect :: "HomePage \<Rightarrow> exn option \<times> HomePage" where
  "on_disconnect s = (None, removeAllPeerConnection s)"

section \<open>Leaving the page\<close>

definition ngOnDestroy :: "HomePage \<Rightarrow> exn option \<times> HomePage" where
  "ngOnDestroy s =
     (let s1 = fold closeRef (Map_values (peerConnectionMap s)) s;
          s2 = fold stopTracks (Map_values (targetUserStreamDataMap s1)) s1;
          s3 = s2\<lparr>peerConnectionMap := Map_new\<rparr>;
          s4 = s3\<lparr>targetUserStreamDataMap := Map_new\<rparr>
      in case ioConnection s4 of
           None \<Rightarrow> (Some TypeError, s4)
         | Some io \<Rightarrow> (None, s4\<lparr>ioConnection := Some (io\<lparr>socketClosed := True\<rparr>)\<rparr>))"

section \<open>The availability check of the web path\<close>

text \<open>
  \<^verbatim>\<open>checkWebRTCAvailability\<close> reads three flags of DetectRTC and probes the camera and the
  microphone with \<^verbatim>\<open>getUserMedia\<close>. \<open>videoStream\<close> and \<open>audioStream\<close> are what the two
  probes give: \<open>None\<close> when the promise is rejected (the \<^verbatim>\<open>catch\<close> turns it into
  \<^verbatim>\<open>undefined\<close>), otherwise the tracks of the stream, each of which the code compares
  with null. On success the result is the two streams with their tracks stopped.
\<close>

record DetectRTC =
  isWebRTCSupported :: bool
  hasWebcam :: bool
  hasMicrophone :: bool

definition some :: "('a \<Rightarrow> bool) \<Rightarrow> 'a list \<Rightarrow> bool" where
  "some p xs = list_ex p xs"

fun stopEach :: "MediaStreamTrack option list \<Rightarrow> exn + MediaStreamTrack option list" where
  "stopEach [] = Inr []"
| "stopEach (None # rest) = Inl TypeError"
| "stopEach (Some value # rest) =
     (case stopEach rest of Inl e \<Rightarrow> Inl e | Inr rest' \<Rightarrow> Inr (Some (stop value) # rest'))"

definition checkWebRTCAvailability ::
  "DetectRTC \<Rightarrow> MediaStreamTrack option list option \<Rightarrow> MediaStreamTrack option list option \<Rightarrow>
     exn + (MediaStreamTrack option list \<times> MediaStreamTrack option list)" where
  "checkWebRTCAvailability detect videoStream audioStream =
     (if \<not> isWebRTCSupported detect then Inl RTCNotSupportedError
      else
        (case videoStream of
           None \<Rightarrow> Inl RTCNoAvailableCameraError
         | Some videoTracks \<Rightarrow>
             if \<not> some (\<lambda>value. case value of None \<Rightarrow> False | Some t \<Rightarrow> \<not> enabled t) videoTracks
                \<or> \<not> hasWebcam detect
             then Inl RTCNoAvailableCameraError
             else
               (case stopEach videoTracks of
                  Inl e \<Rightarrow> Inl e
                | Inr video \<Rightarrow>
                    (case audioStream of
                       None \<Rightarrow> Inl RTCNoAvailableMicrophoneError
                     | Some audioTracks \<Rightarrow>
                         if \<not> some (\<lambda>value. case value of None \<Rightarrow> False | Some t \<Rightarrow> enabled t)
                                audioTracks
                            \<or> \<not> hasMicrophone detect
                         then Inl RTCNoAvailableMicrophoneError
                         else
                           (case stopEach audioTracks of
                              Inl e \<Rightarrow> Inl e
                            | Inr audio \<Rightarrow> Inr (video, audio))))))"

section \<open>Events\<close>

text \<open>
  What reaches the page once its handlers are registered: the messages of the relay, the
  loss of the socket, the events the browser raises on a peer connection, and a new local
  stream. The browser raises a connection's events only on a connection that was
  constructed and has not been closed; the event goes to the handler assigned to that
  connection. A handler that awaits runs to its end before the next event is delivered.
  An exception that ends a handler is reported by the runtime and the page goes on with
  the next event.
\<close>

datatype event =
    OnCreate int
  | OnJoin "ident list option"
  | OnReceivedOffer Offer
  | OnReceivedAnswer Answer
  | OnReceivedCandidate Candidate
  | OnUserDisconnect ident
  | Disconnect
  | IceCandidateEvent nat "RTCIceCandidateInit option"
  | TrackEvent nat nat
  | LocalStream "MediaStream option"

definition raised :: "nat \<Rightarrow> HomePage \<Rightarrow> bool" where
  "raised ref s = (ref < allocated s \<and> \<not> isClosed (connections s ref))"

fun deliver :: "Platform \<Rightarrow> event \<Rightarrow> HomePage \<Rightarrow> exn option \<times> HomePage" where
  "deliver P (OnCreate roomId) s = (None, s)"
| "deliver P (OnJoin userIds) s = on_join P userIds s"
| "deliver P (OnReceivedOffer offer) s = on_received_offer P offer s"
| "deliver P (OnReceivedAnswer answer) s = on_received_answer P answer s"
| "deliver P (OnReceivedCandidate c) s = on_received_candidate P c s"
| "deliver P (OnUserDisconnect userId) s = on_user_disconnect userId s"
| "deliver P Disconnect s = on_disconnect s"
| "deliver P (IceCandidateEvent ref c) s =
     (if raised ref s
      then (case onicecandidate (connections s ref) of
              Some remoteId \<Rightarrow> onicecandidate_handler remoteId c s
            | None \<Rightarrow> (None, s))
      else (None, s))"
| "deliver P (TrackEvent ref track) s =
     (if raised ref s
      then (case ontrack (connections s ref) of
              Some remoteId \<Rightarrow> (None, ontrack_handler remoteId track s)
            | None \<Rightarrow> (None, s))
      else (None, s))"
| "deliver P (LocalStream media) s = getUserStreamData P media s"

fun run :: "Platform \<Rightarrow> event list \<Rightarrow> HomePage \<Rightarrow> HomePage" where
  "run P [] s = s"
| "run P (e # es) s = run P es (snd (deliver P e s))"

section \<open>Pages to compute on\<close>

text \<open>
  The page as its constructor leaves it, the connection \<^verbatim>\<open>getOrCreatePeerConnection\<close>
  constructs for an identifier, a browser that refuses nothing, and two pages in use: one
  with a socket and a local stream of two tracks, and one that also holds a session and a
  remote stream for the participant B.
\<close>

definition HomePage_new :: HomePage where
  "HomePage_new =
     \<lparr>ioConnection = None, peerConnectionMap = Map_new, localUserStreamData = None,
      targetUserStreamDataMap = Map_new, srcObject = None,
      connections = (\<lambda>ref. RTCPeerConnection_new), allocated = 0,
      tracks = (\<lambda>t. \<lparr>enabled = True, ended = False\<rparr>)\<rparr>"

definition wired :: "ident \<Rightarrow> RTCPeerConnection" where
  "wired remoteId =
     RTCPeerConnection_new
       \<lparr>onicecandidate := Some remoteId,
        ontrack := Some remoteId,
        onconnectionstatechange := True,
        onnegotiationneeded := True,
        oniceconnectionstatechange := True\<rparr>"

definition examplePlatform :: Platform where
  "examplePlatform =
     \<lparr>rejects = (\<lambda>pc c. False), offerFor = (\<lambda>pc. ''offer''), answerFor = (\<lambda>pc. ''answer'')\<rparr>"

definition exampleSocket :: Socket where
  "exampleSocket = \<lparr>socketId = Id ''me'', emitted = [], socketClosed = False\<rparr>"

definition examplePage :: HomePage where
  "examplePage =
     HomePage_new
       \<lparr>ioConnection := Some exampleSocket, localUserStreamData := Some [0, 1],
        srcObject := Some [0, 1]\<rparr>"

definition pageWithB :: HomePage where
  "pageWithB =
     examplePage
       \<lparr>peerConnectionMap := Map_set (Id ''B'') 0 Map_new,
        targetUserStreamDataMap := Map_set (Id ''B'') [7] Map_new,
        connections := (\<lambda>ref. RTCPeerConnection_new)(0 := wired (Id ''B'')),
        allocated := 1\<rparr>"

text \<open>
  Two pages the events lead to from the example page: after \<^verbatim>\<open>on-join\<close> with B, when
  the offer to B is sent and set as local description; and after an answer from C that
  no offer preceded.
\<close>

definition pageOfferedB :: HomePage where
  "pageOfferedB = run examplePlatform [OnJoin (Some [Id ''B''])] examplePage"


section \<open>Notions the properties are stated with\<close>

text \<open>
  A browser that refuses no call; the calls that set a description; the tracks of the
  local video element; and \<open>attachedBefore ts cs\<close>: in the sequence of calls \<open>cs\<close> every
  track of \<open>ts\<close> is added before the first call that sets a description.
\<close>

definition accepting :: "Platform \<Rightarrow> bool" where
  "accepting P \<longleftrightarrow> (\<forall>pc c. \<not> rejects P pc c)"

fun describes :: "call \<Rightarrow> bool" where
  "describes (SetLocalDescription d) = True"
| "describes (SetRemoteDescription d) = True"
| "describes c = False"

definition localTracks :: "HomePage \<Rightarrow> nat list" where
  "localTracks s = (case srcObject s of Some stream \<Rightarrow> stream | None \<Rightarrow> [])"

definition attachedBefore :: "nat list \<Rightarrow> call list \<Rightarrow> bool" where
  "attachedBefore ts cs =
     list_all (\<lambda>t. AddTrack t \<in> set (takeWhile (\<lambda>c. \<not> describes c) cs)) ts"

text \<open>
  A page is well formed when every reference in the session registry is a connection
  that was constructed; the pages the events lead to are (\<open>wellFormed_run\<close> below).
  \<open>sessionCalls s ref\<close> are the calls made so far on the connection behind \<open>ref\<close>: none
  when it is not constructed yet.
\<close>

definition wellFormed :: "HomePage \<Rightarrow> bool" where
  "wellFormed s = list_all (\<lambda>ref. ref < allocated s) (Map_values (peerConnectionMap s))"

definition sessionCalls :: "HomePage \<Rightarrow> nat \<Rightarrow> call list" where
  "sessionCalls s ref = (if ref < allocated s then calls (connections s ref) else [])"

text \<open>
  \<open>createdFor sender s s'\<close>: from \<open>s\<close> to \<open>s'\<close> one connection was constructed, with its
  handlers assigned for \<open>sender\<close>, and registered under \<open>sender\<close>; every other entry of the
  session registry and the whole stream registry are as in \<open>s\<close>.
\<close>

definition createdFor :: "ident \<Rightarrow> HomePage \<Rightarrow> HomePage \<Rightarrow> bool" where
  "createdFor sender s s' \<longleftrightarrow>
     Map_get (peerConnectionMap s') sender = Some (allocated s)
     \<and> allocated s' = Suc (allocated s)
     \<and> ontrack (connections s' (allocated s)) = Some sender
     \<and> onicecandidate (connections s' (allocated s)) = Some sender
     \<and> \<not> isClosed (connections s' (allocated s))
     \<and> (\<forall>k. k \<noteq> sender \<longrightarrow> Map_get (peerConnectionMap s') k = Map_get (peerConnectionMap s) k)
     \<and> targetUserStreamDataMap s' = targetUserStreamDataMap s"

text \<open>
  Auxiliary notions of the proofs. \<open>quiet s s'\<close>: \<open>s'\<close> differs from \<open>s\<close> at most in what
  was sent on the socket and in the calls recorded on connections. \<open>startPost\<close>: what the
  synchronous parts of the callbacks of \<^verbatim>\<open>sendOffers\<close> have done. \<open>consistent\<close>: the
  invariant of the page, namely that every identifier with a remote stream has a session,
  the page is well formed, and a connection that can still raise events is registered
  under the identifier its handlers captured (for a participant identifier, as the
  session of that identifier).
\<close>

definition appendCalls :: "nat \<Rightarrow> call list \<Rightarrow> HomePage \<Rightarrow> HomePage" where
  "appendCalls ref cs s =
     s\<lparr>connections := (connections s)
          (ref := (connections s ref)\<lparr>calls := calls (connections s ref) @ cs\<rparr>)\<rparr>"

definition offerTo :: "Socket \<Rightarrow> ident \<times> nat \<times> RTCSessionDescription \<Rightarrow> emission" where
  "offerTo io p = (case p of (v, a, d) \<Rightarrow>
      TransferOffer \<lparr>senderId = socketId io, receiverId = v, sdp = Some d\<rparr>)"

definition quiet :: "HomePage \<Rightarrow> HomePage \<Rightarrow> bool" where
  "quiet s s' \<longleftrightarrow>
     peerConnectionMap s' = peerConnectionMap s
     \<and> targetUserStreamDataMap s' = targetUserStreamDataMap s
     \<and> allocated s' = allocated s
     \<and> srcObject s' = srcObject s
     \<and> tracks s' = tracks s
     \<and> (ioConnection s' = None \<longleftrightarrow> ioConnection s = None)
     \<and> (\<forall>ref. isClosed (connections s' ref) = isClosed (connections s ref)
              \<and> ontrack (connections s' ref) = ontrack (connections s ref)
              \<and> onicecandidate (connections s' ref) = onicecandidate (connections s ref))"

definition startPost ::
  "ident list \<Rightarrow> HomePage \<Rightarrow> (ident \<times> nat \<times> RTCSessionDescription) list \<Rightarrow> HomePage \<Rightarrow> bool" where
  "startPost S s pend s1 \<longleftrightarrow>
     map fst pend = S
     \<and> wellFormed s1 \<and> allocated s \<le> allocated s1
     \<and> srcObject s1 = srcObject s \<and> ioConnection s1 = ioConnection s
     \<and> targetUserStreamDataMap s1 = targetUserStreamDataMap s
     \<and> (\<forall>r. r < allocated s \<longrightarrow> isClosed (connections s1 r) = isClosed (connections s r))
     \<and> (\<forall>k. k \<notin> set S \<longrightarrow> Map_get (peerConnectionMap s1) k = Map_get (peerConnectionMap s) k)
     \<and> (\<forall>k. \<not> nullish k \<and> Map_get (peerConnectionMap s) k \<noteq> None \<longrightarrow>
             Map_get (peerConnectionMap s1) k = Map_get (peerConnectionMap s) k)
     \<and> (\<forall>v\<in>set S. \<exists>a d. Map_get (peerConnectionMap s1) v = Some a \<and> (v, a, d) \<in> set pend)
     \<and> (\<forall>r. \<exists>cs. sessionCalls s1 r = sessionCalls s r @ cs
             \<and> (\<forall>c\<in>set cs. \<not> describes c)
             \<and> ((\<exists>v d. (v, r, d) \<in> set pend) \<longrightarrow>
                   (\<forall>t\<in>set (localTracks s). AddTrack t \<in> set cs)))"

definition consistent :: "HomePage \<Rightarrow> bool" where
  "consistent s \<longleftrightarrow>
     set (Map_keys (targetUserStreamDataMap s)) \<subseteq> set (Map_keys (peerConnectionMap s))
     \<and> wellFormed s
     \<and> (\<forall>ref remoteId.
           raised ref s \<and> ontrack (connections s ref) = Some remoteId \<longrightarrow>
             Map_get (peerConnectionMap s) remoteId \<noteq> None
             \<and> (\<not> nullish remoteId \<longrightarrow> Map_get (peerConnectionMap s) remoteId = Some ref))"

section \<open>Facts about maps\<close>

lemma Map_get_set [simp]:
  "Map_get (Map_set k v m) k' = (if k = k' then Some v else Map_get m k')"
  by (simp add: Map_get_def Map_set_def DAList.lookup_update)

lemma Map_get_delete [simp]:
  "Map_get (Map_delete k m) k' = (if k = k' then None else Map_get m k')"
  by (simp add: Map_get_def Map_delete_def)

lemma Map_get_new [simp]: "Map_get Map_new k = None"
  by (simp add: Map_get_def Map_new_def)

lemma Map_keys_new [simp]: "Map_keys Map_new = []"
  by (simp add: Map_keys_def Map_new_def DAList.empty.rep_eq)

lemma Map_values_new [simp]: "Map_values Map_new = []"
  by (simp add: Map_values_def Map_new_def DAList.empty.rep_eq)

lemma distinct_Map_keys [simp]: "distinct (Map_keys m)"
  by (simp add: Map_keys_def)

lemma Map_keys_iff: "k \<in> set (Map_keys m) \<longleftrightarrow> Map_get m k \<noteq> None"
  by (simp add: Map_keys_def Map_get_def DAList.lookup.rep_eq map_of_eq_None_iff)

lemma set_Map_keys_set [simp]: "set (Map_keys (Map_set k v m)) = insert k (set (Map_keys m))"
  by (auto simp: Map_keys_iff split: if_splits)

lemma set_Map_keys_delete [simp]: "set (Map_keys (Map_delete k m)) = set (Map_keys m) - {k}"
  by (auto simp: Map_keys_iff split: if_splits)

lemma Map_delete_absent: "Map_get m k = None \<Longrightarrow> Map_delete k m = m"
  by (simp add: Map_get_def Map_delete_def DAList.alist_eq_iff DAList.delete.rep_eq
      DAList.lookup.rep_eq map_of_eq_None_iff)

lemma Map_values_get: "a \<in> set (Map_values m) \<longleftrightarrow> (\<exists>k. Map_get m k = Some a)"
proof -
  have d: "distinct (map fst (DAList.impl_of m))" by simp
  have "a \<in> snd ` set (DAList.impl_of m) \<longleftrightarrow> (\<exists>k. (k, a) \<in> set (DAList.impl_of m))"
    by force
  also have "\<dots> \<longleftrightarrow> (\<exists>k. map_of (DAList.impl_of m) k = Some a)"
    using d by (auto dest: map_of_SomeD)
  finally show ?thesis
    by (simp add: Map_values_def Map_get_def DAList.lookup.rep_eq)
qed

lemma count_Map_keys: "count_list (Map_keys m) k = (if Map_get m k = None then 0 else 1)"
proof -
  have "count_list xs k = (if k \<in> set xs then 1 else 0)" if "distinct xs" for xs :: "'a list"
    using that by (induction xs) auto
  from this [OF distinct_Map_keys, of m] show ?thesis
    by (simp add: Map_keys_iff)
qed

lemma Map_keys_set:
  "Map_keys (Map_set k v m) = (if k \<in> set (Map_keys m) then Map_keys m else Map_keys m @ [k])"
  by (simp add: Map_keys_def Map_set_def DAList.update.rep_eq update_keys)

lemma Map_values_set_new [simp]: "Map_values (Map_set k v Map_new) = [v]"
  by (simp add: Map_values_def Map_set_def Map_new_def DAList.update.rep_eq DAList.empty.rep_eq)

lemma Map_keys_set_new [simp]: "Map_keys (Map_set k v Map_new) = [k]"
  by (simp add: Map_keys_def Map_set_def Map_new_def DAList.update.rep_eq DAList.empty.rep_eq)

section \<open>Facts about closing and stopping\<close>

lemma stop_stop [simp]: "stop (stop t) = stop t"
  by (simp add: stop_def)

lemma ended_stop [simp]: "ended (stop t)"
  by (simp add: stop_def)

lemma close_close [simp]: "close (close pc) = close pc"
  by (simp add: close_def)

lemma fold_stopRef:
  "fold stopRef ts s = s\<lparr>tracks := (\<lambda>t. if t \<in> set ts then stop (tracks s t) else tracks s t)\<rparr>"
proof (induction ts arbitrary: s)
  case Nil
  then show ?case by simp
next
  case (Cons a ts)
  have "(\<lambda>t. if t \<in> set ts then stop (tracks (stopRef a s) t) else tracks (stopRef a s) t)
        = (\<lambda>t. if t \<in> set (a # ts) then stop (tracks s t) else tracks s t)"
    by (rule ext) (simp add: stopRef_def)
  then show ?case
    by (simp add: Cons.IH) (simp add: stopRef_def)
qed

lemma stopTracks_eq:
  "stopTracks ts s = s\<lparr>tracks := (\<lambda>t. if t \<in> set ts then stop (tracks s t) else tracks s t)\<rparr>"
  by (simp add: stopTracks_def fold_stopRef)

lemma fold_stopTracks:
  "fold stopTracks streams s =
     s\<lparr>tracks := (\<lambda>t. if t \<in> \<Union> (set ` set streams) then stop (tracks s t) else tracks s t)\<rparr>"
proof (induction streams arbitrary: s)
  case Nil
  then show ?case by simp
next
  case (Cons a streams)
  have "(\<lambda>t. if t \<in> \<Union> (set ` set streams) then stop (tracks (stopTracks a s) t)
             else tracks (stopTracks a s) t)
        = (\<lambda>t. if t \<in> \<Union> (set ` set (a # streams)) then stop (tracks s t) else tracks s t)"
    by (rule ext) (simp add: stopTracks_eq)
  then show ?case
    by (simp add: Cons.IH) (simp add: stopTracks_eq)
qed

lemma fold_closeRef:
  "fold closeRef refs s =
     s\<lparr>connections := (\<lambda>r. if r \<in> set refs then close (connections s r) else connections s r)\<rparr>"
proof (induction refs arbitrary: s)
  case Nil
  then show ?case by simp
next
  case (Cons a refs)
  have "(\<lambda>r. if r \<in> set refs then close (connections (closeRef a s) r)
             else connections (closeRef a s) r)
        = (\<lambda>r. if r \<in> set (a # refs) then close (connections s r) else connections s r)"
    by (rule ext) (simp add: closeRef_def)
  then show ?case
    by (simp add: Cons.IH) (simp add: closeRef_def)
qed

text \<open>The loop that pops the array closes the same connections, last to first.\<close>

lemma removeAllPeerConnection_loop_eq:
  "removeAllPeerConnection_loop data s =
     s\<lparr>connections := (\<lambda>r. if r \<in> set data then close (connections s r) else connections s r)\<rparr>"
proof (induction data s rule: removeAllPeerConnection_loop.induct)
  case (1 data s)
  show ?case
  proof (cases "data = []")
    case True
    then show ?thesis by (subst removeAllPeerConnection_loop.simps) simp
  next
    case False
    then have d: "data = butlast data @ [last data]" by simp
    have "set data = insert (last data) (set (butlast data))"
      by (subst d) simp
    then have "(\<lambda>r. if r \<in> set (butlast data) then close (connections (closeRef (last data) s) r)
                     else connections (closeRef (last data) s) r)
        = (\<lambda>r. if r \<in> set data then close (connections s r) else connections s r)"
      by (intro ext) (simp add: closeRef_def)
    with False "1.IH" show ?thesis
      by (subst removeAllPeerConnection_loop.simps) (simp add: closeRef_def)
  qed
qed

section \<open>Facts about getOrCreatePeerConnection\<close>

lemma getOrCreate_found:
  "\<not> nullish r \<Longrightarrow> Map_get (peerConnectionMap s) r = Some a \<Longrightarrow>
     getOrCreatePeerConnection r s = (a, s)"
  by (simp add: getOrCreatePeerConnection_def)

lemma getOrCreate_new:
  "nullish r \<or> Map_get (peerConnectionMap s) r = None \<Longrightarrow>
     getOrCreatePeerConnection r s =
       (allocated s,
        s\<lparr>connections := (connections s)(allocated s := wired r),
          allocated := Suc (allocated s),
          peerConnectionMap := Map_set r (allocated s) (peerConnectionMap s)\<rparr>)"
  by (auto simp: getOrCreatePeerConnection_def Let_def wired_def)

section \<open>Steps that leave the registries alone\<close>

lemma quiet_refl [simp]: "quiet s s"
  by (simp add: quiet_def)

lemma quiet_trans: "quiet s s1 \<Longrightarrow> quiet s1 s2 \<Longrightarrow> quiet s s2"
  by (simp add: quiet_def)

lemma perform_keeps [simp]:
  "isClosed (perform c pc) = isClosed pc"
  "ontrack (perform c pc) = ontrack pc"
  "onicecandidate (perform c pc) = onicecandidate pc"
  by (cases c; simp)+

lemma quiet_invoke: "quiet s (snd (invoke P ref c s))"
  by (simp add: quiet_def invoke_def)

lemma quiet_emit: "quiet s (snd (emit msg s))"
  by (simp add: quiet_def emit_def split: option.splits)

lemma quiet_andThen:
  "quiet s (snd r) \<Longrightarrow> (\<And>s1. quiet s1 (snd (k s1))) \<Longrightarrow> quiet s (snd (andThen r k))"
  by (cases r) (auto simp: andThen_def split: option.splits intro: quiet_trans)

lemma quiet_addTracks: "quiet s (snd (addTracks P a ts s))"
proof (induction ts arbitrary: s)
  case Nil
  then show ?case by simp
next
  case (Cons t ts)
  show ?case
    by (simp del: snd_conv) (intro quiet_andThen quiet_invoke Cons.IH)
qed

lemma quiet_attachLocalTracks: "quiet s (snd (attachLocalTracks P a s))"
  by (simp add: attachLocalTracks_def quiet_addTracks split: option.splits)

lemma quiet_offer_rest:
  "quiet s1
     (snd (andThen (attachLocalTracks P peerConnection s1) (\<lambda>s2.
          andThen (invoke P peerConnection (SetRemoteDescription d) s2) (\<lambda>s3.
          andThen (invoke P peerConnection CreateAnswer s3) (\<lambda>s4.
          andThen (invoke P peerConnection
                     (SetLocalDescription (answerFor P (connections s3 peerConnection))) s4) (\<lambda>s5.
          emit (\<lambda>io. TransferAnswer
                  \<lparr>senderId = socketId io, receiverId = r,
                   sdp = localDescription (connections s5 peerConnection)\<rparr>) s5))))))"
  by (intro quiet_andThen quiet_attachLocalTracks quiet_invoke quiet_emit)

section \<open>The handlers when the browser refuses nothing\<close>

lemma invoke_accepting:
  "accepting P \<Longrightarrow>
   invoke P ref c s = (None, s\<lparr>connections := (connections s)(ref := perform c (connections s ref))\<rparr>)"
  by (simp add: invoke_def accepting_def)

lemma addTracks_accepting:
  "accepting P \<Longrightarrow> addTracks P a ts s = (None, appendCalls a (map AddTrack ts) s)"
proof (induction ts arbitrary: s)
  case Nil
  then show ?case by (simp add: appendCalls_def)
next
  case (Cons t ts)
  then show ?case
    by (simp add: invoke_accepting andThen_def appendCalls_def)
qed


lemma getOrCreate_keeps:
  "getOrCreatePeerConnection r s = (a, s1) \<Longrightarrow>
     ioConnection s1 = ioConnection s \<and> srcObject s1 = srcObject s
     \<and> targetUserStreamDataMap s1 = targetUserStreamDataMap s \<and> tracks s1 = tracks s"
  by (auto simp: getOrCreatePeerConnection_def Let_def split: option.splits if_splits)

lemma wellFormed_iff:
  "wellFormed s \<longleftrightarrow> (\<forall>k ref. Map_get (peerConnectionMap s) k = Some ref \<longrightarrow> ref < allocated s)"
  by (auto simp: wellFormed_def list_all_iff Map_values_get)

lemma attachLocalTracks_accepting:
  "accepting P \<Longrightarrow>
   attachLocalTracks P a s = (None, appendCalls a (map AddTrack (localTracks s)) s)"
  by (simp add: attachLocalTracks_def localTracks_def addTracks_accepting appendCalls_def
      split: option.splits)

lemma begin_accepting:
  assumes "accepting P" and "getOrCreatePeerConnection v s = (a, s1)"
  shows "\<exists>d. sendOffers_begin P v s =
           (Some (a, d), appendCalls a (map AddTrack (localTracks s) @ [CreateOffer]) s1)"
  using assms getOrCreate_keeps [OF assms(2)]
  by (simp add: sendOffers_begin_def attachLocalTracks_accepting invoke_accepting
      appendCalls_def localTracks_def)

lemma begin_step:
  assumes "accepting P" and "wellFormed s"
  obtains a d s' where
    "sendOffers_begin P v s = (Some (a, d), s')"
    "wellFormed s'" "allocated s \<le> allocated s'" "a < allocated s'"
    "srcObject s' = srcObject s" "ioConnection s' = ioConnection s"
    "targetUserStreamDataMap s' = targetUserStreamDataMap s"
    "Map_get (peerConnectionMap s') v = Some a"
    "\<forall>k. k \<noteq> v \<longrightarrow> Map_get (peerConnectionMap s') k = Map_get (peerConnectionMap s) k"
    "\<not> nullish v \<and> Map_get (peerConnectionMap s) v \<noteq> None \<longrightarrow>
       Map_get (peerConnectionMap s') v = Map_get (peerConnectionMap s) v"
    "\<forall>r. sessionCalls s' r =
          sessionCalls s r @ (if r = a then map AddTrack (localTracks s) @ [CreateOffer] else [])"
    "\<forall>r. r < allocated s \<longrightarrow> isClosed (connections s' r) = isClosed (connections s r)"
proof (cases "\<not> nullish v \<and> Map_get (peerConnectionMap s) v \<noteq> None")
  case True
  then obtain a where a: "Map_get (peerConnectionMap s) v = Some a" by auto
  with True have g: "getOrCreatePeerConnection v s = (a, s)"
    by (simp add: getOrCreate_found)
  from begin_accepting [OF assms(1) g] obtain d where
    b: "sendOffers_begin P v s =
          (Some (a, d), appendCalls a (map AddTrack (localTracks s) @ [CreateOffer]) s)" ..
  have lt: "a < allocated s"
    using assms(2) a by (auto simp: wellFormed_iff)
  show ?thesis
    by (rule that [OF b]) (use a lt assms(2) in \<open>auto simp: appendCalls_def wellFormed_iff sessionCalls_def\<close>)
next
  case False
  let ?s1 = "s\<lparr>connections := (connections s)(allocated s := wired v),
          allocated := Suc (allocated s),
          peerConnectionMap := Map_set v (allocated s) (peerConnectionMap s)\<rparr>"
  from False have g: "getOrCreatePeerConnection v s = (allocated s, ?s1)"
    by (intro getOrCreate_new) auto
  from begin_accepting [OF assms(1) g] obtain d where
    b: "sendOffers_begin P v s =
          (Some (allocated s, d),
           appendCalls (allocated s) (map AddTrack (localTracks s) @ [CreateOffer]) ?s1)" ..
  have w: "calls (wired v) = []"
    by (simp add: wired_def RTCPeerConnection_new_def)
  show ?thesis
    by (rule that [OF b])
      (use False assms(2) w in \<open>auto simp: appendCalls_def wellFormed_iff sessionCalls_def
         less_Suc_eq split: if_splits\<close>)
qed

lemma start_post:
  assumes "accepting P"
  shows "wellFormed s \<Longrightarrow> sendOffers_start P S s = (pend, s1) \<Longrightarrow> startPost S s pend s1"
proof (induction S arbitrary: s pend)
  case Nil
  then show ?case by (auto simp: startPost_def)
next
  case (Cons v rest)
  from begin_step [OF assms Cons.prems(1), of v] obtain a d s' where
    b: "sendOffers_begin P v s = (Some (a, d), s')"
    and wf: "wellFormed s'" and al: "allocated s \<le> allocated s'" and lt: "a < allocated s'"
    and src: "srcObject s' = srcObject s" and io: "ioConnection s' = ioConnection s"
    and tg: "targetUserStreamDataMap s' = targetUserStreamDataMap s"
    and reg: "Map_get (peerConnectionMap s') v = Some a"
    and oth: "\<forall>k. k \<noteq> v \<longrightarrow> Map_get (peerConnectionMap s') k = Map_get (peerConnectionMap s) k"
    and kept: "\<not> nullish v \<and> Map_get (peerConnectionMap s) v \<noteq> None \<longrightarrow>
       Map_get (peerConnectionMap s') v = Map_get (peerConnectionMap s) v"
    and cl: "\<forall>r. sessionCalls s' r =
          sessionCalls s r @ (if r = a then map AddTrack (localTracks s) @ [CreateOffer] else [])"
    and ck: "\<forall>r. r < allocated s \<longrightarrow> isClosed (connections s' r) = isClosed (connections s r)"
    by blast
  obtain pend' where r: "sendOffers_start P rest s' = (pend', s1)" and p: "pend = (v, a, d) # pend'"
    using Cons.prems(2) b by (auto split: prod.splits)
  from Cons.IH [OF wf r] have ih: "startPost rest s' pend' s1" .
  have lts: "localTracks s' = localTracks s"
    by (simp add: localTracks_def src)
  have 1: "map fst pend = v # rest"
    using ih p by (simp add: startPost_def)
  have 2: "wellFormed s1 \<and> allocated s \<le> allocated s1
     \<and> srcObject s1 = srcObject s \<and> ioConnection s1 = ioConnection s
     \<and> targetUserStreamDataMap s1 = targetUserStreamDataMap s"
    using ih al src io tg by (simp add: startPost_def)
  have 7: "\<forall>r. r < allocated s \<longrightarrow> isClosed (connections s1 r) = isClosed (connections s r)"
    using ih al ck by (simp add: startPost_def)
  have 3: "\<forall>k. k \<notin> set (v # rest) \<longrightarrow>
             Map_get (peerConnectionMap s1) k = Map_get (peerConnectionMap s) k"
    using ih oth by (simp add: startPost_def)
  have 4: "\<forall>k. \<not> nullish k \<and> Map_get (peerConnectionMap s) k \<noteq> None \<longrightarrow>
             Map_get (peerConnectionMap s1) k = Map_get (peerConnectionMap s) k"
  proof (intro allI impI)
    fix k assume k: "\<not> nullish k \<and> Map_get (peerConnectionMap s) k \<noteq> None"
    then have "Map_get (peerConnectionMap s') k = Map_get (peerConnectionMap s) k"
      using oth kept by (cases "k = v") auto
    moreover from this k have "Map_get (peerConnectionMap s1) k = Map_get (peerConnectionMap s') k"
      using ih by (simp add: startPost_def)
    ultimately show "Map_get (peerConnectionMap s1) k = Map_get (peerConnectionMap s) k"
      by simp
  qed
  have 5: "\<forall>w\<in>set (v # rest). \<exists>a d. Map_get (peerConnectionMap s1) w = Some a \<and> (w, a, d) \<in> set pend"
  proof
    fix w assume w: "w \<in> set (v # rest)"
    show "\<exists>a d. Map_get (peerConnectionMap s1) w = Some a \<and> (w, a, d) \<in> set pend"
    proof (cases "w \<in> set rest")
      case True
      then show ?thesis
        using ih p by (fastforce simp: startPost_def)
    next
      case False
      with w have "w = v" by simp
      moreover from False ih have "Map_get (peerConnectionMap s1) w = Map_get (peerConnectionMap s') w"
        by (simp add: startPost_def)
      ultimately show ?thesis
        using reg p by auto
    qed
  qed
  have 6: "\<forall>r. \<exists>cs. sessionCalls s1 r = sessionCalls s r @ cs
             \<and> (\<forall>c\<in>set cs. \<not> describes c)
             \<and> ((\<exists>v d. (v, r, d) \<in> set pend) \<longrightarrow>
                   (\<forall>t\<in>set (localTracks s). AddTrack t \<in> set cs))"
  proof
    fix r
    from ih lts obtain cs where
      c1: "sessionCalls s1 r = sessionCalls s' r @ cs"
      and c2: "\<forall>c\<in>set cs. \<not> describes c"
      and c3: "(\<exists>v d. (v, r, d) \<in> set pend') \<longrightarrow> (\<forall>t\<in>set (localTracks s). AddTrack t \<in> set cs)"
      unfolding startPost_def by metis
    let ?cs0 = "if r = a then map AddTrack (localTracks s) @ [CreateOffer] else []"
    have "sessionCalls s1 r = sessionCalls s r @ (?cs0 @ cs)"
      using c1 cl by simp
    moreover have "\<forall>c\<in>set (?cs0 @ cs). \<not> describes c"
      using c2 by auto
    moreover have "(\<exists>v d. (v, r, d) \<in> set pend) \<longrightarrow>
                   (\<forall>t\<in>set (localTracks s). AddTrack t \<in> set (?cs0 @ cs))"
      using c3 p by auto
    ultimately show "\<exists>cs. sessionCalls s1 r = sessionCalls s r @ cs
             \<and> (\<forall>c\<in>set cs. \<not> describes c)
             \<and> ((\<exists>v d. (v, r, d) \<in> set pend) \<longrightarrow>
                   (\<forall>t\<in>set (localTracks s). AddTrack t \<in> set cs))"
      by blast
  qed
  show ?case
    unfolding startPost_def using 1 2 3 4 5 6 7 by blast
qed

lemma resume_accepting:
  assumes "accepting P" and "ioConnection s = Some io"
  shows "sendOffers_resume P v a d s =
           s\<lparr>connections := (connections s)
                (a := (connections s a)\<lparr>calls := calls (connections s a) @ [SetLocalDescription d],
                                        localDescription := Some d\<rparr>),
             ioConnection := Some (io\<lparr>emitted := emitted io @
                [TransferOffer \<lparr>senderId = socketId io, receiverId = v, sdp = Some d\<rparr>]\<rparr>)\<rparr>"
  using assms by (simp add: sendOffers_resume_def invoke_accepting andThen_def emit_def)

lemma finish_post:
  assumes "accepting P"
  shows "ioConnection s = Some io \<Longrightarrow>
         quiet s (sendOffers_finish P pend s)
         \<and> ioConnection (sendOffers_finish P pend s) =
             Some (io\<lparr>emitted := emitted io @ map (offerTo io) pend\<rparr>)
         \<and> (\<forall>r. calls (connections (sendOffers_finish P pend s) r) =
                  calls (connections s r)
                  @ map (\<lambda>p. SetLocalDescription (snd (snd p))) (filter (\<lambda>p. fst (snd p) = r) pend))"
proof (induction pend arbitrary: s io)
  case Nil
  then show ?case by simp
next
  case (Cons p pend)
  obtain v a d where p: "p = (v, a, d)" by (cases p)
  let ?io = "io\<lparr>emitted := emitted io @ [offerTo io p]\<rparr>"
  let ?s = "sendOffers_resume P v a d s"
  have r: "?s = s\<lparr>connections := (connections s)
                (a := (connections s a)\<lparr>calls := calls (connections s a) @ [SetLocalDescription d],
                                        localDescription := Some d\<rparr>),
             ioConnection := Some ?io\<rparr>"
    using resume_accepting [OF assms Cons.prems] by (simp add: offerTo_def p)
  then have io': "ioConnection ?s = Some ?io" by simp
  have q: "quiet s ?s"
    using Cons.prems by (subst r) (simp add: quiet_def)
  have c: "\<forall>r. calls (connections ?s r) =
              calls (connections s r) @ (if r = a then [SetLocalDescription d] else [])"
    by (subst r) simp
  from Cons.IH [OF io'] q c show ?case
    by (auto simp: p offerTo_def intro: quiet_trans)
qed

lemma attachedBefore_append:
  "\<forall>c\<in>set cs. \<not> describes c \<Longrightarrow> \<forall>t\<in>set ts. AddTrack t \<in> set cs \<Longrightarrow>
     attachedBefore ts (cs @ ds)"
  by (simp add: attachedBefore_def list_all_iff takeWhile_append2)


lemma attachedBefore_prefix:
  "\<forall>c\<in>set pre. \<not> describes c \<Longrightarrow> attachedBefore ts new \<Longrightarrow> attachedBefore ts (pre @ new)"
  by (simp add: attachedBefore_def list_all_iff takeWhile_append2)

lemma attachedBefore_history:
  assumes "\<forall>v\<in>S. \<exists>pc new d.
                    Map_get m v = Some pc
                    \<and> calls (c pc) = before pc @ new
                    \<and> attachedBefore ts new
                    \<and> SetLocalDescription d \<in> set new"
  shows "\<forall>v\<in>S. \<exists>pc new d.
                    Map_get m v = Some pc
                    \<and> calls (c pc) = before pc @ new
                    \<and> attachedBefore ts new
                    \<and> SetLocalDescription d \<in> set new
                    \<and> ((\<forall>c\<in>set (before pc). \<not> describes c) \<longrightarrow> attachedBefore ts (calls (c pc)))"
proof
  fix v assume "v \<in> S"
  with assms obtain pc new d where
    1: "Map_get m v = Some pc" "calls (c pc) = before pc @ new" "attachedBefore ts new"
       "SetLocalDescription d \<in> set new"
    by blast
  then have "(\<forall>c\<in>set (before pc). \<not> describes c) \<longrightarrow> attachedBefore ts (calls (c pc))"
    by (simp add: attachedBefore_prefix)
  with 1 show "\<exists>pc new d.
                    Map_get m v = Some pc
                    \<and> calls (c pc) = before pc @ new
                    \<and> attachedBefore ts new
                    \<and> SetLocalDescription d \<in> set new
                    \<and> ((\<forall>c\<in>set (before pc). \<not> describes c) \<longrightarrow> attachedBefore ts (calls (c pc)))"
    by blast
qed

lemma attachedBefore_append_iff:
  assumes "attachedBefore ts new"
  shows "attachedBefore ts (before @ new)
         \<longleftrightarrow> (\<forall>c\<in>set before. \<not> describes c) \<or> attachedBefore ts before"
proof (cases "\<forall>c\<in>set before. \<not> describes c")
  case True
  then show ?thesis
    using assms by (simp add: attachedBefore_prefix)
next
  case False
  then obtain c where "c \<in> set before" and "\<not> \<not> describes c" by blast
  then have "takeWhile (\<lambda>c. \<not> describes c) (before @ new)
               = takeWhile (\<lambda>c. \<not> describes c) before"
    by (rule takeWhile_append1)
  with False show ?thesis
    by (auto simp: attachedBefore_def)
qed

lemma sendOffers_post:
  assumes "accepting P" and "wellFormed s" and "ioConnection s = Some io"
  shows "\<exists>pend.
           map fst pend = S
           \<and> ioConnection (sendOffers P S s) =
               Some (io\<lparr>emitted := emitted io @ map (offerTo io) pend\<rparr>)
           \<and> (\<forall>v\<in>set S. \<exists>pc new d.
                  Map_get (peerConnectionMap (sendOffers P S s)) v = Some pc
                  \<and> calls (connections (sendOffers P S s) pc) = sessionCalls s pc @ new
                  \<and> attachedBefore (localTracks s) new
                  \<and> SetLocalDescription d \<in> set new)
           \<and> (\<forall>k. k \<notin> set S \<longrightarrow>
                  Map_get (peerConnectionMap (sendOffers P S s)) k = Map_get (peerConnectionMap s) k)
           \<and> (\<forall>k. \<not> nullish k \<and> Map_get (peerConnectionMap s) k \<noteq> None \<longrightarrow>
                  Map_get (peerConnectionMap (sendOffers P S s)) k = Map_get (peerConnectionMap s) k)
           \<and> (\<forall>r. r < allocated s \<longrightarrow>
                  isClosed (connections (sendOffers P S s) r) = isClosed (connections s r))
           \<and> targetUserStreamDataMap (sendOffers P S s) = targetUserStreamDataMap s
           \<and> srcObject (sendOffers P S s) = srcObject s
           \<and> wellFormed (sendOffers P S s)"
proof -
  obtain pend s1 where st: "sendOffers_start P S s = (pend, s1)"
    by (cases "sendOffers_start P S s")
  let ?s2 = "sendOffers_finish P pend s1"
  have so: "sendOffers P S s = ?s2"
    using assms(3) st by (simp add: sendOffers_def)
  from start_post [OF assms(1,2) st] have sp: "startPost S s pend s1" .
  then have io1: "ioConnection s1 = Some io"
    using assms(3) by (simp add: startPost_def)
  from finish_post [OF assms(1) io1, of pend] have
    q: "quiet s1 ?s2"
    and em: "ioConnection ?s2 = Some (io\<lparr>emitted := emitted io @ map (offerTo io) pend\<rparr>)"
    and cl: "\<forall>r. calls (connections ?s2 r) =
                  calls (connections s1 r)
                  @ map (\<lambda>p. SetLocalDescription (snd (snd p))) (filter (\<lambda>p. fst (snd p) = r) pend)"
    by blast+
  have reg: "peerConnectionMap ?s2 = peerConnectionMap s1" and al: "allocated ?s2 = allocated s1"
    and tg: "targetUserStreamDataMap ?s2 = targetUserStreamDataMap s1"
    and src: "srcObject ?s2 = srcObject s1"
    and ck: "\<forall>r. isClosed (connections ?s2 r) = isClosed (connections s1 r)"
    using q by (simp_all add: quiet_def)
  have sess: "\<forall>v\<in>set S. \<exists>pc new d.
                  Map_get (peerConnectionMap ?s2) v = Some pc
                  \<and> calls (connections ?s2 pc) = sessionCalls s pc @ new
                  \<and> attachedBefore (localTracks s) new
                  \<and> SetLocalDescription d \<in> set new"
  proof
    fix v assume "v \<in> set S"
    with sp obtain a d where a: "Map_get (peerConnectionMap s1) v = Some a"
      and m: "(v, a, d) \<in> set pend"
      unfolding startPost_def by blast
    from sp have "wellFormed s1" by (simp add: startPost_def)
    with a have lt: "a < allocated s1" by (auto simp: wellFormed_iff)
    from sp m obtain cs where c1: "sessionCalls s1 a = sessionCalls s a @ cs"
      and c2: "\<forall>c\<in>set cs. \<not> describes c"
      and c3: "\<forall>t\<in>set (localTracks s). AddTrack t \<in> set cs"
      unfolding startPost_def by metis
    let ?ds = "map (\<lambda>p. SetLocalDescription (snd (snd p))) (filter (\<lambda>p. fst (snd p) = a) pend)"
    have "calls (connections ?s2 a) = sessionCalls s a @ (cs @ ?ds)"
      using cl c1 lt by (simp add: sessionCalls_def)
    moreover have "attachedBefore (localTracks s) (cs @ ?ds)"
      using c2 c3 by (rule attachedBefore_append)
    moreover have "SetLocalDescription d \<in> set (cs @ ?ds)"
      using m by force
    ultimately show "\<exists>pc new d.
                  Map_get (peerConnectionMap ?s2) v = Some pc
                  \<and> calls (connections ?s2 pc) = sessionCalls s pc @ new
                  \<and> attachedBefore (localTracks s) new
                  \<and> SetLocalDescription d \<in> set new"
      using a reg by metis
  qed
  have wf: "wellFormed ?s2"
    using sp reg al by (simp add: startPost_def wellFormed_def)
  show ?thesis
    unfolding so
    using sp em sess reg tg src wf ck by (intro exI [of _ pend]) (simp add: startPost_def)
qed

section \<open>The invariant of the page\<close>

lemma consistentI:
  assumes "set (Map_keys (targetUserStreamDataMap s)) \<subseteq> set (Map_keys (peerConnectionMap s))"
    and "wellFormed s"
    and "\<And>ref remoteId. raised ref s \<Longrightarrow> ontrack (connections s ref) = Some remoteId \<Longrightarrow>
           Map_get (peerConnectionMap s) remoteId \<noteq> None"
    and "\<And>ref remoteId. raised ref s \<Longrightarrow> ontrack (connections s ref) = Some remoteId \<Longrightarrow>
           \<not> nullish remoteId \<Longrightarrow> Map_get (peerConnectionMap s) remoteId = Some ref"
  shows "consistent s"
  using assms unfolding consistent_def by blast

lemma consistent_keys:
  "consistent s \<Longrightarrow>
     set (Map_keys (targetUserStreamDataMap s)) \<subseteq> set (Map_keys (peerConnectionMap s))"
  by (simp add: consistent_def)

lemma consistent_wellFormed: "consistent s \<Longrightarrow> wellFormed s"
  by (simp add: consistent_def)

lemma consistent_registered:
  "consistent s \<Longrightarrow> raised ref s \<Longrightarrow> ontrack (connections s ref) = Some remoteId \<Longrightarrow>
     Map_get (peerConnectionMap s) remoteId \<noteq> None"
  unfolding consistent_def by blast

lemma consistent_own:
  "consistent s \<Longrightarrow> raised ref s \<Longrightarrow> ontrack (connections s ref) = Some remoteId \<Longrightarrow>
     \<not> nullish remoteId \<Longrightarrow> Map_get (peerConnectionMap s) remoteId = Some ref"
  unfolding consistent_def by blast

lemma consistent_quiet: "quiet s s' \<Longrightarrow> consistent s \<Longrightarrow> consistent s'"
  by (simp add: consistent_def quiet_def raised_def wellFormed_def)

lemma consistent_getOrCreate:
  assumes "consistent s"
  shows "consistent (snd (getOrCreatePeerConnection v s))"
proof (cases "\<not> nullish v \<and> Map_get (peerConnectionMap s) v \<noteq> None")
  case True
  then show ?thesis
    using assms by (auto simp: getOrCreate_found)
next
  case False
  let ?s' = "s\<lparr>connections := (connections s)(allocated s := wired v),
          allocated := Suc (allocated s),
          peerConnectionMap := Map_set v (allocated s) (peerConnectionMap s)\<rparr>"
  from False have g: "getOrCreatePeerConnection v s = (allocated s, ?s')"
    by (intro getOrCreate_new) auto
  have w: "ontrack (wired v) = Some v"
    by (simp add: wired_def RTCPeerConnection_new_def)
  have "consistent ?s'"
  proof (rule consistentI)
    show "set (Map_keys (targetUserStreamDataMap ?s')) \<subseteq> set (Map_keys (peerConnectionMap ?s'))"
      using consistent_keys [OF assms] by auto
  next
    show "wellFormed ?s'"
      using consistent_wellFormed [OF assms] by (auto simp: wellFormed_iff less_Suc_eq)
  next
    fix ref remoteId
    assume r: "raised ref ?s'" and o: "ontrack (connections ?s' ref) = Some remoteId"
    show "Map_get (peerConnectionMap ?s') remoteId \<noteq> None"
    proof (cases "ref = allocated s")
      case True
      with o w show ?thesis by simp
    next
      case False
      with r o have "raised ref s" and "ontrack (connections s ref) = Some remoteId"
        by (auto simp: raised_def)
      from consistent_registered [OF assms this] show ?thesis by simp
    qed
  next
    fix ref remoteId
    assume r: "raised ref ?s'" and o: "ontrack (connections ?s' ref) = Some remoteId"
      and n: "\<not> nullish remoteId"
    show "Map_get (peerConnectionMap ?s') remoteId = Some ref"
    proof (cases "ref = allocated s")
      case True
      with o w show ?thesis by simp
    next
      case ne: False
      with r o have "raised ref s" and "ontrack (connections s ref) = Some remoteId"
        by (auto simp: raised_def)
      from consistent_own [OF assms this n] have "Map_get (peerConnectionMap s) remoteId = Some ref" .
      with False n show ?thesis by auto
    qed
  qed
  with g show ?thesis by simp
qed

lemma begin_quiet:
  "getOrCreatePeerConnection v s = (a, s1) \<Longrightarrow> quiet s1 (snd (sendOffers_begin P v s))"
  using quiet_attachLocalTracks [of s1 P a]
  by (auto simp: sendOffers_begin_def invoke_def split: prod.splits option.splits if_splits
      intro: quiet_trans) (auto simp: quiet_def)

lemma consistent_begin: "consistent s \<Longrightarrow> consistent (snd (sendOffers_begin P v s))"
  using begin_quiet [of v s "fst (getOrCreatePeerConnection v s)" "snd (getOrCreatePeerConnection v s)" P]
    consistent_getOrCreate [of s v]
  by (auto intro: consistent_quiet)

lemma snd_start_Cons:
  "snd (sendOffers_start P (v # S) s) = snd (sendOffers_start P S (snd (sendOffers_begin P v s)))"
  by (auto split: prod.splits option.splits)

lemma consistent_start: "consistent s \<Longrightarrow> consistent (snd (sendOffers_start P S s))"
proof (induction S arbitrary: s)
  case Nil
  then show ?case by simp
next
  case (Cons v S)
  from Cons.IH [OF consistent_begin [OF Cons.prems]] show ?case
    by (simp only: snd_start_Cons)
qed

lemma quiet_resume: "quiet s (sendOffers_resume P v a d s)"
  unfolding sendOffers_resume_def
  by (intro quiet_andThen quiet_invoke quiet_emit)

lemma quiet_finish: "quiet s (sendOffers_finish P pend s)"
proof (induction pend arbitrary: s)
  case Nil
  then show ?case by simp
next
  case (Cons p pend)
  obtain v a d where "p = (v, a, d)" by (cases p)
  then show ?case
    using quiet_resume [of s P v a d] Cons.IH quiet_trans by auto
qed

lemma consistent_sendOffers:
  assumes "consistent s"
  shows "consistent (sendOffers P S s)"
proof -
  obtain pend s1 where st: "sendOffers_start P S s = (pend, s1)"
    by (cases "sendOffers_start P S s")
  with consistent_start [OF assms, of P S] have "consistent s1" by simp
  then have "consistent (sendOffers_finish P pend s1)"
    using quiet_finish by (rule consistent_quiet [rotated])
  with assms st show ?thesis
    by (simp add: sendOffers_def)
qed

lemma quiet_emitEach: "quiet s (emitEach msg ks s)"
proof (induction ks arbitrary: s)
  case Nil
  then show ?case by simp
next
  case (Cons k ks)
  from quiet_emit [of s "\<lambda>io. msg k"] Cons.IH show ?case
    by (auto intro: quiet_trans)
qed

lemma consistent_getUserStreamData:
  "consistent s \<Longrightarrow> consistent (snd (getUserStreamData P media s))"
proof (cases media)
  case None
  assume "consistent s"
  with None show ?thesis by (simp add: getUserStreamData_def)
next
  case (Some stream)
  assume c: "consistent s"
  let ?s1 = "s\<lparr>localUserStreamData := Some stream, srcObject := Some stream\<rparr>"
  have c1: "consistent ?s1"
    using c by (simp add: consistent_def raised_def wellFormed_def)
  have "consistent (removeAllCurrentConnection ?s1)"
    using quiet_emitEach c1 by (auto simp: removeAllCurrentConnection_def intro: consistent_quiet)
  with c1 Some show ?thesis
    by (simp add: getUserStreamData_def Let_def consistent_sendOffers)
qed

lemma raised_closeRef: "raised ref (closeRef pc s) \<longleftrightarrow> raised ref s \<and> ref \<noteq> pc"
  by (auto simp: raised_def closeRef_def close_def)

lemma consistent_on_user_disconnect:
  assumes "consistent s"
  shows "consistent (snd (on_user_disconnect userId s))"
proof (cases "nullish userId")
  case True
  then show ?thesis
    using assms by (simp add: on_user_disconnect_def removeStream_def removePeerConnection_def)
next
  case False
  let ?s' = "snd (on_user_disconnect userId s)"
  have pm: "peerConnectionMap ?s' = Map_delete userId (peerConnectionMap s)"
    and tm: "targetUserStreamDataMap ?s' = Map_delete userId (targetUserStreamDataMap s)"
    and al: "allocated ?s' = allocated s"
    and ot: "\<And>ref. ontrack (connections ?s' ref) = ontrack (connections s ref)"
    and ra: "\<And>ref. raised ref ?s' \<Longrightarrow>
                raised ref s \<and> Map_get (peerConnectionMap s) userId \<noteq> Some ref"
    using False
    by (auto simp: on_user_disconnect_def removeStream_def removePeerConnection_def Let_def
        raised_def closeRef_def close_def stopTracks_eq split: option.splits if_splits)
  show ?thesis
  proof (rule consistentI)
    show "set (Map_keys (targetUserStreamDataMap ?s')) \<subseteq> set (Map_keys (peerConnectionMap ?s'))"
      using consistent_keys [OF assms] by (auto simp: pm tm)
  next
    show "wellFormed ?s'"
      using consistent_wellFormed [OF assms] by (auto simp: wellFormed_iff pm al split: if_splits)
  next
    fix ref remoteId
    assume r: "raised ref ?s'" and o: "ontrack (connections ?s' ref) = Some remoteId"
    from ra [OF r] o have r': "raised ref s" and o': "ontrack (connections s ref) = Some remoteId"
      and nr: "Map_get (peerConnectionMap s) userId \<noteq> Some ref"
      by (simp_all add: ot)
    have ne: "remoteId \<noteq> userId"
      using consistent_own [OF assms r' o'] False nr by auto
    with consistent_registered [OF assms r' o']
    show "Map_get (peerConnectionMap ?s') remoteId \<noteq> None"
      by (simp add: pm)
    assume "\<not> nullish remoteId"
    from consistent_own [OF assms r' o' this] ne
    show "Map_get (peerConnectionMap ?s') remoteId = Some ref"
      by (simp add: pm)
  qed
qed

lemma consistent_on_disconnect:
  assumes "consistent s"
  shows "consistent (snd (on_disconnect s))"
proof -
  let ?s' = "snd (on_disconnect s)"
  have pm: "peerConnectionMap ?s' = peerConnectionMap s"
    and tm: "targetUserStreamDataMap ?s' = targetUserStreamDataMap s"
    and ot: "\<And>ref. ontrack (connections ?s' ref) = ontrack (connections s ref)"
    and wf: "wellFormed ?s' = wellFormed s"
    and ra: "\<And>ref. raised ref ?s' \<Longrightarrow> raised ref s"
    by (auto simp: on_disconnect_def wellFormed_def removeAllPeerConnection_def removeAllPeerConnection_loop_eq
        raised_def close_def split: if_splits)
  show ?thesis
    using assms unfolding consistent_def pm tm ot wf by (meson ra)
qed

lemma consistent_ontrack:
  assumes "consistent s" and "raised ref s" and "ontrack (connections s ref) = Some remoteId"
  shows "consistent (ontrack_handler remoteId track s)"
proof -
  from consistent_registered [OF assms] have "remoteId \<in> set (Map_keys (peerConnectionMap s))"
    by (simp add: Map_keys_iff)
  with assms(1) show ?thesis
    by (simp add: consistent_def ontrack_handler_def Let_def raised_def wellFormed_def)
qed

lemma consistent_deliver: "consistent s \<Longrightarrow> consistent (snd (deliver P e s))"
proof (cases e)
  case (OnCreate x1)
  assume "consistent s"
  with OnCreate show ?thesis by simp
next
  case (OnJoin userIds)
  assume c: "consistent s"
  with OnJoin show ?thesis
    using quiet_emit [of s "\<lambda>io. CreateRoom 1"]
    by (auto simp: on_join_def consistent_sendOffers split: option.splits intro: consistent_quiet)
next
  case (OnReceivedOffer offer)
  assume c: "consistent s"
  obtain a s1 where g: "getOrCreatePeerConnection (senderId offer) s = (a, s1)"
    by (cases "getOrCreatePeerConnection (senderId offer) s")
  with consistent_getOrCreate [OF c, of "senderId offer"] have "consistent s1" by simp
  moreover have "quiet s1 (snd (on_received_offer P offer s))"
    by (simp add: on_received_offer_def g del: snd_conv) (rule quiet_offer_rest)
  ultimately show ?thesis
    using OnReceivedOffer by (auto intro: consistent_quiet)
next
  case (OnReceivedAnswer answer)
  assume c: "consistent s"
  obtain a s1 where g: "getOrCreatePeerConnection (senderId answer) s = (a, s1)"
    by (cases "getOrCreatePeerConnection (senderId answer) s")
  with consistent_getOrCreate [OF c, of "senderId answer"] have "consistent s1" by simp
  moreover have "quiet s1 (snd (on_received_answer P answer s))"
    by (simp add: on_received_answer_def g del: snd_conv) (rule quiet_invoke)
  ultimately show ?thesis
    using OnReceivedAnswer by (auto intro: consistent_quiet)
next
  case (OnReceivedCandidate cand)
  assume c: "consistent s"
  obtain a s1 where g: "getOrCreatePeerConnection (senderId cand) s = (a, s1)"
    by (cases "getOrCreatePeerConnection (senderId cand) s")
  with consistent_getOrCreate [OF c, of "senderId cand"] have "consistent s1" by simp
  moreover have "quiet s1 (snd (on_received_candidate P cand s))"
    by (simp add: on_received_candidate_def g del: snd_conv) (rule quiet_invoke)
  ultimately show ?thesis
    using OnReceivedCandidate by (auto intro: consistent_quiet)
next
  case (OnUserDisconnect userId)
  assume "consistent s"
  with OnUserDisconnect show ?thesis by (simp add: consistent_on_user_disconnect)
next
  case Disconnect
  assume "consistent s"
  with Disconnect show ?thesis by (simp add: consistent_on_disconnect)
next
  case (IceCandidateEvent ref c)
  assume c: "consistent s"
  have "quiet s (snd (onicecandidate_handler remoteId c s))" for remoteId
    by (simp add: onicecandidate_handler_def quiet_emit split: option.splits)
  with c IceCandidateEvent show ?thesis
    by (auto split: option.splits intro: consistent_quiet)
next
  case (TrackEvent ref track)
  assume "consistent s"
  with TrackEvent show ?thesis
    by (auto split: option.splits intro: consistent_ontrack)
next
  case (LocalStream media)
  assume "consistent s"
  with LocalStream show ?thesis by (simp add: consistent_getUserStreamData)
qed

lemma consistent_run: "consistent s \<Longrightarrow> consistent (run P es s)"
  by (induction es arbitrary: s) (auto intro: consistent_deliver)

text \<open>Every page the events lead to from a page with empty registries is well formed.\<close>

lemma wellFormed_run:
  assumes "peerConnectionMap s = Map_new" and "targetUserStreamDataMap s = Map_new"
    and "allocated s = 0"
  shows "wellFormed (run P es s)"
proof -
  have "consistent s"
    using assms by (simp add: consistent_def raised_def wellFormed_def)
  then show ?thesis
    by (intro consistent_wellFormed consistent_run)
qed

section \<open>Computing on the example pages\<close>

lemma emitEach_eq:
  "ioConnection s = Some io \<Longrightarrow>
     emitEach msg ks s = s\<lparr>ioConnection := Some (io\<lparr>emitted := emitted io @ map msg ks\<rparr>)\<rparr>"
proof (induction ks arbitrary: s io)
  case Nil
  then show ?case by simp
next
  case (Cons k ks)
  let ?io = "io\<lparr>emitted := emitted io @ [msg k]\<rparr>"
  have e: "snd (emit (\<lambda>io. msg k) s) = s\<lparr>ioConnection := Some ?io\<rparr>"
    using Cons.prems by (simp add: emit_def)
  have "ioConnection (s\<lparr>ioConnection := Some ?io\<rparr>) = Some ?io" by simp
  from Cons.IH [OF this] show ?case
    by (simp add: e)
qed

lemma accepting_example [simp]: "accepting examplePlatform"
  by (simp add: accepting_def examplePlatform_def)

lemma example_descriptions [simp]:
  "offerFor examplePlatform pc = ''offer''" "answerFor examplePlatform pc = ''answer''"
  by (simp_all add: examplePlatform_def)

lemmas page_defs = examplePage_def HomePage_new_def exampleSocket_def pageWithB_def

lemma Map_size_eval [simp]:
  "Map_size Map_new = 0" "Map_size (Map_set k v Map_new) = 1"
  by (simp_all add: Map_size_def Map_set_def Map_new_def DAList.update.rep_eq DAList.empty.rep_eq)

lemma run_example:
  "Map_keys (peerConnectionMap (run examplePlatform [OnJoin (Some [Id ''B''])] examplePage))
     = [Id ''B'']
   \<and> Map_keys (targetUserStreamDataMap (run examplePlatform [OnJoin (Some [Id ''B''])] examplePage))
     = []
   \<and> Map_keys (targetUserStreamDataMap
        (run examplePlatform [OnJoin (Some [Id ''B'']), TrackEvent 0 7] examplePage))
     = [Id ''B'']"
  by (simp add: on_join_def sendOffers_def
      sendOffers_begin_def sendOffers_resume_def getOrCreate_new page_defs
      attachLocalTracks_def addTracks_accepting invoke_accepting andThen_def emit_def
      appendCalls_def wired_def RTCPeerConnection_new_def Map_keys_set
      raised_def ontrack_handler_def Let_def MediaStream_addTrack_def)

lemma pageOfferedB_eq:
  "pageOfferedB =
     examplePage
       \<lparr>ioConnection := Some (exampleSocket\<lparr>emitted :=
            [TransferOffer \<lparr>senderId = Id ''me'', receiverId = Id ''B'', sdp = Some ''offer''\<rparr>]\<rparr>),
        peerConnectionMap := Map_set (Id ''B'') 0 Map_new,
        connections := (\<lambda>ref. RTCPeerConnection_new)
          (0 := (wired (Id ''B''))
             \<lparr>calls := [AddTrack 0, AddTrack 1, CreateOffer, SetLocalDescription ''offer''],
              localDescription := Some ''offer''\<rparr>),
        allocated := 1\<rparr>"
  by (simp add: pageOfferedB_def on_join_def sendOffers_def
      sendOffers_begin_def sendOffers_resume_def getOrCreate_new page_defs
      attachLocalTracks_def addTracks_accepting invoke_accepting andThen_def emit_def
      appendCalls_def wired_def RTCPeerConnection_new_def)


section \<open>Obtaining a session twice\<close>

text \<open>
  C6. For an identifier that is neither null nor undefined, a second call of
  \<^verbatim>\<open>getOrCreatePeerConnection\<close> returns the connection the first call returned and leaves
  the page exactly as the first call left it, so nothing is assigned a second time; the
  registry holds the identifier once, with that connection. The first call leaves the
  page untouched when the identifier was registered; otherwise it constructs one
  connection, assigns the candidate, track and state-change handlers for this identifier
  to it, and changes no other connection.
\<close>

theorem getOrCreatePeerConnection_idempotent:
  assumes "\<not> nullish remoteId"
  shows "case getOrCreatePeerConnection remoteId s of
           (pc1, s1) \<Rightarrow>
             (case getOrCreatePeerConnection remoteId s1 of
                (pc2, s2) \<Rightarrow>
                  pc2 = pc1 \<and> s2 = s1
                  \<and> Map_get (peerConnectionMap s2) remoteId = Some pc1
                  \<and> count_list (Map_keys (peerConnectionMap s2)) remoteId = 1
                  \<and> (case Map_get (peerConnectionMap s) remoteId of
                        Some existing \<Rightarrow> pc1 = existing \<and> s1 = s
                      | None \<Rightarrow>
                          pc1 = allocated s \<and> allocated s2 = Suc (allocated s)
                          \<and> onicecandidate (connections s2 pc1) = Some remoteId
                          \<and> ontrack (connections s2 pc1) = Some remoteId
                          \<and> onconnectionstatechange (connections s2 pc1)
                          \<and> (\<forall>ref. ref \<noteq> pc1 \<longrightarrow> connections s2 ref = connections s ref)))"
proof (cases "Map_get (peerConnectionMap s) remoteId")
  case None
  let ?s1 = "s\<lparr>connections := (connections s)(allocated s := wired remoteId),
          allocated := Suc (allocated s),
          peerConnectionMap := Map_set remoteId (allocated s) (peerConnectionMap s)\<rparr>"
  have first: "getOrCreatePeerConnection remoteId s = (allocated s, ?s1)"
    using None by (simp add: getOrCreate_new)
  have second: "getOrCreatePeerConnection remoteId ?s1 = (allocated s, ?s1)"
    using assms by (simp add: getOrCreate_found)
  show ?thesis
    unfolding first prod.case second
    using None by (simp add: count_Map_keys wired_def RTCPeerConnection_new_def)
next
  case (Some a)
  then have "getOrCreatePeerConnection remoteId s = (a, s)"
    using assms by (simp add: getOrCreate_found)
  then show ?thesis
    using Some by (simp add: count_Map_keys)
qed

theorem getOrCreatePeerConnection_idempotent_witness:
  "\<not> nullish (Id ''B'')
   \<and> fst (getOrCreatePeerConnection (Id ''B'') HomePage_new) = 0
   \<and> fst (getOrCreatePeerConnection (Id ''B'')
            (snd (getOrCreatePeerConnection (Id ''B'') HomePage_new))) = 0
   \<and> count_list
        (Map_keys (peerConnectionMap
           (snd (getOrCreatePeerConnection (Id ''B'')
              (snd (getOrCreatePeerConnection (Id ''B'') HomePage_new))))))
        (Id ''B'') = 1"
  using getOrCreatePeerConnection_idempotent [of "Id ''B''" HomePage_new]
  by (simp add: HomePage_new_def getOrCreate_new getOrCreate_found split: prod.splits)

section \<open>A participant leaves\<close>

text \<open>
  C8. The handler of \<^verbatim>\<open>on-user-disconnect\<close> for a participant identifier raises no
  exception; afterwards neither registry has an entry for the identifier, the connection
  that was registered for it is closed, every track of the stream that was registered for
  it is stopped, and the entries of every other identifier are as before. When neither
  registry had an entry for the identifier, the page is unchanged. For a payload that is
  null or undefined the handler does nothing.
\<close>

theorem on_user_disconnect_removes:
  "(nullish userId \<longrightarrow> on_user_disconnect userId s = (None, s))
   \<and> (case on_user_disconnect (Id x) s of
     (err, s') \<Rightarrow>
       err = None
       \<and> Map_get (peerConnectionMap s') (Id x) = None
       \<and> Map_get (targetUserStreamDataMap s') (Id x) = None
       \<and> (case Map_get (peerConnectionMap s) (Id x) of
             Some pc \<Rightarrow> isClosed (connections s' pc)
           | None \<Rightarrow> True)
       \<and> (case Map_get (targetUserStreamDataMap s) (Id x) of
             Some stream \<Rightarrow> list_all (\<lambda>t. ended (tracks s' t)) stream
           | None \<Rightarrow> True)
       \<and> (\<forall>k. k \<noteq> Id x \<longrightarrow>
              Map_get (peerConnectionMap s') k = Map_get (peerConnectionMap s) k
              \<and> Map_get (targetUserStreamDataMap s') k = Map_get (targetUserStreamDataMap s) k)
       \<and> (Map_get (peerConnectionMap s) (Id x) = None
            \<and> Map_get (targetUserStreamDataMap s) (Id x) = None \<longrightarrow> s' = s))"
  by (auto simp: on_user_disconnect_def removeStream_def removePeerConnection_def Let_def
      closeRef_def close_def stopTracks_eq list_all_iff Map_delete_absent split: option.splits)

theorem on_user_disconnect_removes_witness:
  "fst (on_user_disconnect (Id ''B'') pageWithB) = None
   \<and> Map_get (peerConnectionMap (snd (on_user_disconnect (Id ''B'') pageWithB))) (Id ''B'') = None
   \<and> Map_get (targetUserStreamDataMap (snd (on_user_disconnect (Id ''B'') pageWithB))) (Id ''B'')
       = None
   \<and> isClosed (connections (snd (on_user_disconnect (Id ''B'') pageWithB)) 0)
   \<and> ended (tracks (snd (on_user_disconnect (Id ''B'') pageWithB)) 7)"
  using on_user_disconnect_removes [of Null pageWithB "''B''"]
  by (simp add: pageWithB_def split: prod.splits)

section \<open>Leaving the page: what is torn down\<close>

text \<open>
  C10. After \<^verbatim>\<open>ngOnDestroy\<close> every connection that was registered is closed, every track
  of every remote stream that was registered is stopped, and both registries are empty.
  When the page has a socket, the socket is closed and no exception is raised; a page
  that never got its socket ends with a \<^verbatim>\<open>TypeError\<close>, after the rest is done.
\<close>

theorem ngOnDestroy_teardown:
  "case ngOnDestroy s of
     (err, s') \<Rightarrow>
       list_all (\<lambda>pc. isClosed (connections s' pc)) (Map_values (peerConnectionMap s))
       \<and> list_all (\<lambda>stream. list_all (\<lambda>t. ended (tracks s' t)) stream)
             (Map_values (targetUserStreamDataMap s))
       \<and> peerConnectionMap s' = Map_new
       \<and> targetUserStreamDataMap s' = Map_new
       \<and> (case ioConnection s of
             Some io \<Rightarrow> err = None \<and> ioConnection s' = Some (io\<lparr>socketClosed := True\<rparr>)
           | None \<Rightarrow> err = Some TypeError \<and> ioConnection s' = None)"
  by (auto simp: ngOnDestroy_def Let_def fold_closeRef fold_stopTracks close_def list_all_iff
      split: option.splits)

theorem ngOnDestroy_teardown_witness:
  "fst (ngOnDestroy pageWithB) = None
   \<and> isClosed (connections (snd (ngOnDestroy pageWithB)) 0)
   \<and> ended (tracks (snd (ngOnDestroy pageWithB)) 7)
   \<and> Map_keys (peerConnectionMap (snd (ngOnDestroy pageWithB))) = []
   \<and> Map_keys (targetUserStreamDataMap (snd (ngOnDestroy pageWithB))) = []
   \<and> ioConnection (snd (ngOnDestroy pageWithB)) = Some (exampleSocket\<lparr>socketClosed := True\<rparr>)"
  using ngOnDestroy_teardown [of pageWithB]
  by (simp add: pageWithB_def examplePage_def HomePage_new_def split: prod.splits)

section \<open>The socket is lost\<close>

text \<open>
  C1. The handler of \<^verbatim>\<open>disconnect\<close> closes every registered connection and raises no
  exception, but it removes nothing: both registries are what they were before the event.
  On the page that holds a session and a stream for B, both still list B afterwards.
\<close>

theorem on_disconnect_keeps_registries:
  "case on_disconnect s of
     (err, s') \<Rightarrow>
       err = None
       \<and> peerConnectionMap s' = peerConnectionMap s
       \<and> targetUserStreamDataMap s' = targetUserStreamDataMap s
       \<and> list_all (\<lambda>pc. isClosed (connections s' pc)) (Map_values (peerConnectionMap s))"
  by (simp add: on_disconnect_def removeAllPeerConnection_def removeAllPeerConnection_loop_eq
      close_def list_all_iff)

theorem on_disconnect_keeps_registries_witness:
  "Map_keys (peerConnectionMap (snd (on_disconnect pageWithB))) = [Id ''B'']
   \<and> Map_keys (targetUserStreamDataMap (snd (on_disconnect pageWithB))) = [Id ''B'']
   \<and> isClosed (connections (snd (on_disconnect pageWithB)) 0)"
  using on_disconnect_keeps_registries [of pageWithB]
  by (simp add: pageWithB_def split: prod.splits)

section \<open>The camera check\<close>

lemma stopEach_Inl: "stopEach xs = Inl e \<Longrightarrow> e = TypeError"
  by (induction xs rule: stopEach.induct) (auto split: sum.splits)

text \<open>
  C4. \<^verbatim>\<open>checkWebRTCAvailability\<close> ends with \<^verbatim>\<open>RTCNoAvailableCameraError\<close> exactly when
  WebRTC is supported and the video probe failed, or its stream holds no disabled track,
  or no webcam is detected. A stream whose only track is enabled, with a webcam detected,
  is therefore refused with the camera error.
\<close>

theorem checkWebRTCAvailability_camera_error:
  "checkWebRTCAvailability detect videoStream audioStream = Inl RTCNoAvailableCameraError
   \<longleftrightarrow> isWebRTCSupported detect
       \<and> (case videoStream of
             None \<Rightarrow> True
           | Some videoTracks \<Rightarrow>
               \<not> list_ex (\<lambda>value. case value of None \<Rightarrow> False | Some t \<Rightarrow> \<not> enabled t)
                    videoTracks
               \<or> \<not> hasWebcam detect)"
  by (auto simp: checkWebRTCAvailability_def some_def dest: stopEach_Inl
      split: option.splits sum.splits)

theorem checkWebRTCAvailability_camera_error_witness:
  "checkWebRTCAvailability
     \<lparr>isWebRTCSupported = True, hasWebcam = True, hasMicrophone = True\<rparr>
     (Some [Some \<lparr>enabled = True, ended = False\<rparr>])
     (Some [Some \<lparr>enabled = True, ended = False\<rparr>])
   = Inl RTCNoAvailableCameraError"
  using checkWebRTCAvailability_camera_error
    [of "\<lparr>isWebRTCSupported = True, hasWebcam = True, hasMicrophone = True\<rparr>"
        "Some [Some \<lparr>enabled = True, ended = False\<rparr>]"
        "Some [Some \<lparr>enabled = True, ended = False\<rparr>]"]
  by simp

section \<open>An offer arrives\<close>




section \<open>Joining a room with participants\<close>

text \<open>
  C5. When the page is well formed, has its socket, and the browser refuses no call, the
  handler of \<^verbatim>\<open>on-join\<close> with a list of identifiers ends without an exception; afterwards
  every identifier of the list is a key of the session registry; on the connection
  registered for it, the calls made during the event add every track of the local stream
  before the first call that sets a description, and a local description is set (so that,
  when no description had been set on it before the event, every local track is added
  before the first description is set on it); and the messages sent during the event are
  one \<^verbatim>\<open>transfer-offer\<close> for each element of the list, in order, addressed to it and
  carrying a description.
\<close>

theorem on_join_offers:
  assumes "accepting P" and "wellFormed s" and "ioConnection s = Some io"
  shows "case on_join P (Some S) s of
           (err, s') \<Rightarrow>
             err = None
             \<and> set S \<subseteq> set (Map_keys (peerConnectionMap s'))
             \<and> (\<forall>v\<in>set S. \<exists>pc new d.
                    Map_get (peerConnectionMap s') v = Some pc
                    \<and> calls (connections s' pc) = sessionCalls s pc @ new
                    \<and> attachedBefore (localTracks s) new
                    \<and> SetLocalDescription d \<in> set new
                    \<and> ((\<forall>c\<in>set (sessionCalls s pc). \<not> describes c) \<longrightarrow>
                          attachedBefore (localTracks s) (calls (connections s' pc))))
             \<and> (\<exists>offers. length offers = length S
                    \<and> ioConnection s' =
                        Some (io\<lparr>emitted := emitted io @
                          map (\<lambda>(v, d). TransferOffer
                                 \<lparr>senderId = socketId io, receiverId = v, sdp = Some d\<rparr>)
                              (zip S offers)\<rparr>))"
proof -
  from sendOffers_post [OF assms, of S] obtain pend where
    ids: "map fst pend = S"
    and em: "ioConnection (sendOffers P S s) =
               Some (io\<lparr>emitted := emitted io @ map (offerTo io) pend\<rparr>)"
    and sess: "\<forall>v\<in>set S. \<exists>pc new d.
                  Map_get (peerConnectionMap (sendOffers P S s)) v = Some pc
                  \<and> calls (connections (sendOffers P S s) pc) = sessionCalls s pc @ new
                  \<and> attachedBefore (localTracks s) new
                  \<and> SetLocalDescription d \<in> set new"
    by blast
  have keys: "set S \<subseteq> set (Map_keys (peerConnectionMap (sendOffers P S s)))"
    using sess by (auto simp: Map_keys_iff)
  have "map (offerTo io) pend =
          map (\<lambda>(v, d). TransferOffer \<lparr>senderId = socketId io, receiverId = v, sdp = Some d\<rparr>)
            (zip (map fst pend) (map (\<lambda>p. snd (snd p)) pend))"
    by (induction pend) (auto simp: offerTo_def)
  with em ids have "\<exists>offers. length offers = length S
                    \<and> ioConnection (sendOffers P S s) =
                        Some (io\<lparr>emitted := emitted io @
                          map (\<lambda>(v, d). TransferOffer
                                 \<lparr>senderId = socketId io, receiverId = v, sdp = Some d\<rparr>)
                              (zip S offers)\<rparr>)"
    by (intro exI [of _ "map (\<lambda>p. snd (snd p)) pend"]) auto
  with keys attachedBefore_history
      [where S = "set S" and m = "peerConnectionMap (sendOffers P S s)"
         and c = "connections (sendOffers P S s)" and before = "sessionCalls s"
         and ts = "localTracks s", OF sess]
  show ?thesis
    by (simp add: on_join_def)
qed

theorem on_join_offers_witness:
  "accepting examplePlatform \<and> wellFormed examplePage
   \<and> ioConnection examplePage = Some exampleSocket
   \<and> fst (on_join examplePlatform (Some [Id ''B'']) examplePage) = None
   \<and> set [Id ''B'']
       \<subseteq> set (Map_keys (peerConnectionMap
                (snd (on_join examplePlatform (Some [Id ''B'']) examplePage))))"
  using on_join_offers [of examplePlatform examplePage exampleSocket "[Id ''B'']"]
  by (simp add: page_defs wellFormed_def split: prod.splits)

section \<open>The local stream is replaced\<close>

text \<open>
  C3. When the page is well formed, has its socket, holds at least one session, and the
  browser refuses no call, \<^verbatim>\<open>getUserStreamData\<close> with a new stream ends without an
  exception; the stream is the one of the local video element; the messages sent are a
  \<^verbatim>\<open>remove-connection\<close> for every key of the session registry followed by a
  \<^verbatim>\<open>transfer-offer\<close> for every key. Nothing is discarded locally: the registry has the
  keys it had, and the session of every participant identifier is the connection it was,
  with its closed flag as it was. On the connection registered for each key the calls of
  the event come after whatever was called on it before; they add every track of the new
  stream and then set a local description, so every new track is added before any
  description is set on the connection exactly when no description had been set on it
  before the event, or the new tracks had all been added before the first one. On the
  page that has sent its offer to B, the session of B is afterwards still the connection
  at reference 0, no connection was constructed, and the new tracks are added after the
  local description of that connection.
\<close>

theorem getUserStreamData_renegotiates:
  assumes "accepting P" and "wellFormed s" and "ioConnection s = Some io"
    and "0 < Map_size (peerConnectionMap s)"
  shows "case getUserStreamData P (Some stream) s of
           (err, s') \<Rightarrow>
             err = None
             \<and> srcObject s' = Some stream
             \<and> set (Map_keys (peerConnectionMap s')) = set (Map_keys (peerConnectionMap s))
             \<and> (\<forall>x pc. Map_get (peerConnectionMap s) (Id x) = Some pc \<longrightarrow>
                    Map_get (peerConnectionMap s') (Id x) = Some pc
                    \<and> isClosed (connections s' pc) = isClosed (connections s pc))
             \<and> (\<forall>v\<in>set (Map_keys (peerConnectionMap s)). \<exists>pc new d.
                    Map_get (peerConnectionMap s') v = Some pc
                    \<and> calls (connections s' pc) = sessionCalls s pc @ new
                    \<and> attachedBefore stream new
                    \<and> SetLocalDescription d \<in> set new
                    \<and> (attachedBefore stream (calls (connections s' pc))
                         \<longleftrightarrow> (\<forall>c\<in>set (sessionCalls s pc). \<not> describes c)
                              \<or> attachedBefore stream (sessionCalls s pc)))
             \<and> (\<exists>offers. length offers = length (Map_keys (peerConnectionMap s))
                    \<and> ioConnection s' =
                        Some (io\<lparr>emitted := emitted io
                          @ map RemoveConnection (Map_keys (peerConnectionMap s))
                          @ map (\<lambda>(v, d). TransferOffer
                                   \<lparr>senderId = socketId io, receiverId = v, sdp = Some d\<rparr>)
                                (zip (Map_keys (peerConnectionMap s)) offers)\<rparr>))"
proof -
  let ?keys = "Map_keys (peerConnectionMap s)"
  let ?io = "io\<lparr>emitted := emitted io @ map RemoveConnection ?keys\<rparr>"
  let ?s1 = "s\<lparr>localUserStreamData := Some stream, srcObject := Some stream\<rparr>"
  let ?s2 = "?s1\<lparr>ioConnection := Some ?io\<rparr>"
  let ?s' = "sendOffers P ?keys ?s2"
  have r: "removeAllCurrentConnection ?s1 = ?s2"
    using assms(3) by (simp add: removeAllCurrentConnection_def emitEach_eq)
  have g: "getUserStreamData P (Some stream) s = (None, ?s')"
    using assms(4) by (simp add: getUserStreamData_def Let_def r)
  have wf: "wellFormed ?s2"
    using assms(2) by (simp add: wellFormed_def)
  have io2: "ioConnection ?s2 = Some ?io" by simp
  from sendOffers_post [OF assms(1) wf io2, of ?keys] obtain pend where
    ids: "map fst pend = ?keys"
    and em: "ioConnection ?s' = Some (?io\<lparr>emitted := emitted ?io @ map (offerTo ?io) pend\<rparr>)"
    and sess: "\<forall>v\<in>set ?keys. \<exists>pc new d.
                  Map_get (peerConnectionMap ?s') v = Some pc
                  \<and> calls (connections ?s' pc) = sessionCalls ?s2 pc @ new
                  \<and> attachedBefore (localTracks ?s2) new
                  \<and> SetLocalDescription d \<in> set new"
    and oth: "\<forall>k. k \<notin> set ?keys \<longrightarrow>
                  Map_get (peerConnectionMap ?s') k = Map_get (peerConnectionMap ?s2) k"
    and kept: "\<forall>k. \<not> nullish k \<and> Map_get (peerConnectionMap ?s2) k \<noteq> None \<longrightarrow>
                  Map_get (peerConnectionMap ?s') k = Map_get (peerConnectionMap ?s2) k"
    and ck: "\<forall>r. r < allocated ?s2 \<longrightarrow>
                  isClosed (connections ?s' r) = isClosed (connections ?s2 r)"
    and src: "srcObject ?s' = srcObject ?s2"
    by auto
  have keys: "set (Map_keys (peerConnectionMap ?s')) = set ?keys"
  proof (intro set_eqI iffI)
    fix k assume "k \<in> set (Map_keys (peerConnectionMap ?s'))"
    then show "k \<in> set ?keys"
      using oth by (auto simp: Map_keys_iff)
  next
    fix k assume "k \<in> set ?keys"
    then show "k \<in> set (Map_keys (peerConnectionMap ?s'))"
      using sess by (auto simp: Map_keys_iff)
  qed
  have same: "\<forall>x pc. Map_get (peerConnectionMap s) (Id x) = Some pc \<longrightarrow>
                    Map_get (peerConnectionMap ?s') (Id x) = Some pc
                    \<and> isClosed (connections ?s' pc) = isClosed (connections s pc)"
  proof (intro allI impI)
    fix x pc assume m: "Map_get (peerConnectionMap s) (Id x) = Some pc"
    then have "pc < allocated s"
      using assms(2) by (auto simp: wellFormed_iff)
    with m kept ck show "Map_get (peerConnectionMap ?s') (Id x) = Some pc
                    \<and> isClosed (connections ?s' pc) = isClosed (connections s pc)"
      by simp
  qed
  have sess': "\<forall>v\<in>set ?keys. \<exists>pc new d.
                    Map_get (peerConnectionMap ?s') v = Some pc
                    \<and> calls (connections ?s' pc) = sessionCalls s pc @ new
                    \<and> attachedBefore stream new
                    \<and> SetLocalDescription d \<in> set new"
  proof -
    have "sessionCalls ?s2 pc = sessionCalls s pc" for pc
      by (simp add: sessionCalls_def)
    moreover have "localTracks ?s2 = stream"
      by (simp add: localTracks_def)
    ultimately show ?thesis
      using sess by (simp only:)
  qed
  have "map (offerTo ?io) pend =
          map (\<lambda>(v, d). TransferOffer \<lparr>senderId = socketId io, receiverId = v, sdp = Some d\<rparr>)
            (zip (map fst pend) (map (\<lambda>p. snd (snd p)) pend))"
    by (induction pend) (auto simp: offerTo_def)
  moreover have "length pend = length ?keys"
    using ids by (metis length_map)
  ultimately have offers: "\<exists>offers. length offers = length ?keys
                    \<and> ioConnection ?s' =
                        Some (io\<lparr>emitted := emitted io
                          @ map RemoveConnection ?keys
                          @ map (\<lambda>(v, d). TransferOffer
                                   \<lparr>senderId = socketId io, receiverId = v, sdp = Some d\<rparr>)
                                (zip ?keys offers)\<rparr>)"
    using em ids by (intro exI [of _ "map (\<lambda>p. snd (snd p)) pend"]) simp
  have sess'': "\<forall>v\<in>set ?keys. \<exists>pc new d.
                    Map_get (peerConnectionMap ?s') v = Some pc
                    \<and> calls (connections ?s' pc) = sessionCalls s pc @ new
                    \<and> attachedBefore stream new
                    \<and> SetLocalDescription d \<in> set new
                    \<and> (attachedBefore stream (calls (connections ?s' pc))
                         \<longleftrightarrow> (\<forall>c\<in>set (sessionCalls s pc). \<not> describes c)
                              \<or> attachedBefore stream (sessionCalls s pc))"
  proof
    fix v assume "v \<in> set ?keys"
    with sess' obtain pc new d where
      1: "Map_get (peerConnectionMap ?s') v = Some pc"
         "calls (connections ?s' pc) = sessionCalls s pc @ new"
         "attachedBefore stream new" "SetLocalDescription d \<in> set new"
      by blast
    from attachedBefore_append_iff [OF 1(3), of "sessionCalls s pc"] 1
    show "\<exists>pc new d.
                    Map_get (peerConnectionMap ?s') v = Some pc
                    \<and> calls (connections ?s' pc) = sessionCalls s pc @ new
                    \<and> attachedBefore stream new
                    \<and> SetLocalDescription d \<in> set new
                    \<and> (attachedBefore stream (calls (connections ?s' pc))
                         \<longleftrightarrow> (\<forall>c\<in>set (sessionCalls s pc). \<not> describes c)
                              \<or> attachedBefore stream (sessionCalls s pc))"
      by (metis (no_types, lifting))
  qed
  show ?thesis
    unfolding g prod.case
    using src keys same sess'' offers by simp
qed

lemma renegotiation_example:
  "Map_get (peerConnectionMap (snd (getUserStreamData examplePlatform (Some [2, 3]) pageOfferedB)))
        (Id ''B'') = Some 0
   \<and> allocated (snd (getUserStreamData examplePlatform (Some [2, 3]) pageOfferedB)) = 1
   \<and> \<not> isClosed (connections (snd (getUserStreamData examplePlatform (Some [2, 3]) pageOfferedB)) 0)
   \<and> calls (connections (snd (getUserStreamData examplePlatform (Some [2, 3]) pageOfferedB)) 0)
       = [AddTrack 0, AddTrack 1, CreateOffer, SetLocalDescription ''offer'',
          AddTrack 2, AddTrack 3, CreateOffer, SetLocalDescription ''offer'']"
  by (simp add: pageOfferedB_eq getUserStreamData_def Let_def removeAllCurrentConnection_def
      sendOffers_def sendOffers_begin_def sendOffers_resume_def getOrCreate_found page_defs
      attachLocalTracks_def addTracks_accepting invoke_accepting andThen_def emit_def
      appendCalls_def wired_def RTCPeerConnection_new_def Map_keys_set)

theorem getUserStreamData_renegotiates_witness:
  "accepting examplePlatform \<and> wellFormed pageOfferedB
   \<and> ioConnection pageOfferedB =
       Some (exampleSocket\<lparr>emitted :=
         [TransferOffer \<lparr>senderId = Id ''me'', receiverId = Id ''B'', sdp = Some ''offer''\<rparr>]\<rparr>)
   \<and> 0 < Map_size (peerConnectionMap pageOfferedB)
   \<and> Map_get (peerConnectionMap pageOfferedB) (Id ''B'') = Some 0
   \<and> allocated pageOfferedB = 1
   \<and> fst (getUserStreamData examplePlatform (Some [2, 3]) pageOfferedB) = None
   \<and> Map_get (peerConnectionMap (snd (getUserStreamData examplePlatform (Some [2, 3]) pageOfferedB)))
        (Id ''B'') = Some 0
   \<and> allocated (snd (getUserStreamData examplePlatform (Some [2, 3]) pageOfferedB)) = 1
   \<and> \<not> isClosed (connections (snd (getUserStreamData examplePlatform (Some [2, 3]) pageOfferedB)) 0)
   \<and> calls (connections (snd (getUserStreamData examplePlatform (Some [2, 3]) pageOfferedB)) 0)
       = [AddTrack 0, AddTrack 1, CreateOffer, SetLocalDescription ''offer'',
          AddTrack 2, AddTrack 3, CreateOffer, SetLocalDescription ''offer'']
   \<and> \<not> attachedBefore [2, 3]
         (calls (connections (snd (getUserStreamData examplePlatform (Some [2, 3]) pageOfferedB)) 0))"
  using getUserStreamData_renegotiates
      [of examplePlatform pageOfferedB
          "exampleSocket\<lparr>emitted :=
            [TransferOffer \<lparr>senderId = Id ''me'', receiverId = Id ''B'', sdp = Some ''offer''\<rparr>]\<rparr>"
          "[2, 3]"]
    renegotiation_example
  by (simp add: pageOfferedB_eq page_defs wellFormed_def attachedBefore_def
      split: prod.splits)

section \<open>A message without sender\<close>

lemma createdFor_quiet:
  assumes "nullish v" and "quiet (snd (getOrCreatePeerConnection v s)) s'"
  shows "createdFor v s s'"
  using assms
  by (simp add: getOrCreate_new createdFor_def quiet_def wired_def RTCPeerConnection_new_def)

text \<open>
  C9. An offer whose sender is null is not dropped: on the example page, which has no
  session, the handler constructs a connection, registers it under the key null, and
  answers to the receiver null.
\<close>

theorem missing_sender_counterexample:
  "Map_keys (peerConnectionMap examplePage) = []
   \<and> allocated examplePage = 0
   \<and> Map_keys (peerConnectionMap (snd (on_received_offer examplePlatform
         \<lparr>senderId = Null, receiverId = Id ''me'', sdp = Some ''offer''\<rparr> examplePage))) = [Null]
   \<and> allocated (snd (on_received_offer examplePlatform
         \<lparr>senderId = Null, receiverId = Id ''me'', sdp = Some ''offer''\<rparr> examplePage)) = 1
   \<and> ioConnection (snd (on_received_offer examplePlatform
         \<lparr>senderId = Null, receiverId = Id ''me'', sdp = Some ''offer''\<rparr> examplePage))
      = Some (exampleSocket\<lparr>emitted :=
          [TransferAnswer \<lparr>senderId = Id ''me'', receiverId = Null, sdp = Some ''answer''\<rparr>]\<rparr>)"
  by (simp add: on_received_offer_def getOrCreate_new page_defs attachLocalTracks_def
      addTracks_accepting invoke_accepting andThen_def emit_def appendCalls_def
      wired_def RTCPeerConnection_new_def)

text \<open>
  C9, as the code has it. For an offer, an answer or a candidate whose sender is null or
  undefined, whatever the browser does with the calls, the handler constructs a
  connection, assigns its handlers for the missing identifier and registers it under that
  identifier; the entries of all other identifiers in the session registry, and the
  stream registry, are not changed.
\<close>

theorem missing_sender_creates_session:
  assumes "nullish (senderId offer)" and "nullish (senderId answer)" and "nullish (senderId c)"
  shows "createdFor (senderId offer) s (snd (on_received_offer P offer s))
         \<and> createdFor (senderId answer) s (snd (on_received_answer P answer s))
         \<and> createdFor (senderId c) s (snd (on_received_candidate P c s))"
proof (intro conjI)
  show "createdFor (senderId offer) s (snd (on_received_offer P offer s))"
    using assms(1)
    by (rule createdFor_quiet)
      (simp add: on_received_offer_def split_beta quiet_offer_rest del: snd_conv)
  show "createdFor (senderId answer) s (snd (on_received_answer P answer s))"
    using assms(2)
    by (rule createdFor_quiet)
      (simp add: on_received_answer_def split_beta quiet_invoke del: snd_conv)
  show "createdFor (senderId c) s (snd (on_received_candidate P c s))"
    using assms(3)
    by (rule createdFor_quiet)
      (simp add: on_received_candidate_def split_beta quiet_invoke del: snd_conv)
qed

theorem missing_sender_creates_session_witness:
  "nullish Null \<and> nullish Undefined
   \<and> Map_get (peerConnectionMap (snd (on_received_answer examplePlatform
        \<lparr>senderId = Null, receiverId = Id ''me'', sdp = Some ''answer''\<rparr> examplePage))) Null
       = Some 0
   \<and> Map_get (peerConnectionMap (snd (on_received_candidate examplePlatform
        \<lparr>senderId = Undefined, receiverId = Id ''me'', candidate = Some ''candidate''\<rparr>
        examplePage))) Undefined = Some 0
   \<and> allocated (snd (on_received_offer examplePlatform
        \<lparr>senderId = Null, receiverId = Id ''me'', sdp = Some ''offer''\<rparr> examplePage)) = 1"
  using missing_sender_creates_session [of
      "\<lparr>senderId = Null, receiverId = Id ''me'', sdp = Some ''offer''\<rparr>"
      "\<lparr>senderId = Null, receiverId = Id ''me'', sdp = Some ''answer''\<rparr>"
      "\<lparr>senderId = Undefined, receiverId = Id ''me'', candidate = Some ''candidate''\<rparr>"
      examplePage examplePlatform]
  by (simp add: createdFor_def page_defs)

section \<open>Every remote stream has its session\<close>

text \<open>
  C7. Start from a page with empty registries on which no connection was constructed yet,
  whatever its socket and local stream. After any sequence of events, under any browser,
  every key of the stream registry is a key of the session registry; and this is still so
  after \<^verbatim>\<open>ngOnDestroy\<close>, which ends the life of the page.
\<close>

theorem remote_streams_have_sessions:
  assumes "peerConnectionMap s = Map_new" and "targetUserStreamDataMap s = Map_new"
    and "allocated s = 0"
  shows "set (Map_keys (targetUserStreamDataMap (run P es s)))
           \<subseteq> set (Map_keys (peerConnectionMap (run P es s)))
         \<and> set (Map_keys (targetUserStreamDataMap (snd (ngOnDestroy (run P es s)))))
           \<subseteq> set (Map_keys (peerConnectionMap (snd (ngOnDestroy (run P es s)))))"
proof -
  have "consistent s"
    using assms by (simp add: consistent_def raised_def wellFormed_def)
  then have "consistent (run P es s)"
    by (rule consistent_run)
  then have "set (Map_keys (targetUserStreamDataMap (run P es s)))
           \<subseteq> set (Map_keys (peerConnectionMap (run P es s)))"
    by (rule consistent_keys)
  moreover have "targetUserStreamDataMap (snd (ngOnDestroy t)) = Map_new" for t
    by (simp add: ngOnDestroy_def Let_def split: option.splits)
  ultimately show ?thesis
    by simp
qed

theorem remote_streams_have_sessions_witness:
  "peerConnectionMap examplePage = Map_new \<and> targetUserStreamDataMap examplePage = Map_new
   \<and> allocated examplePage = 0
   \<and> set (Map_keys (targetUserStreamDataMap
        (run examplePlatform [OnJoin (Some [Id ''B'']), TrackEvent 0 7] examplePage)))
       \<subseteq> set (Map_keys (peerConnectionMap
        (run examplePlatform [OnJoin (Some [Id ''B'']), TrackEvent 0 7] examplePage)))
   \<and> Map_keys (targetUserStreamDataMap
        (run examplePlatform [OnJoin (Some [Id ''B'']), TrackEvent 0 7] examplePage))
       = [Id ''B'']
   \<and> Map_keys (targetUserStreamDataMap
        (run examplePlatform [OnJoin (Some [Id ''B''])] examplePage)) = []
   \<and> Map_keys (peerConnectionMap
        (run examplePlatform [OnJoin (Some [Id ''B''])] examplePage)) = [Id ''B'']"
  using remote_streams_have_sessions
    [of examplePage examplePlatform "[OnJoin (Some [Id ''B'']), TrackEvent 0 7]"]
    run_example
  by (simp add: page_defs)

end
